theory Spec2Isabelle
  imports Complex_Main
begin

section \<open>JavaScript strings\<close>

text \<open>
  A JavaScript string is a sequence of UTF-16 code units. A code unit is modelled by its
  number (what \<^verbatim>\<open>charCodeAt\<close> returns, 0 to 65535), a string by the list of its
  code units; \<open>str\<close> turns an ASCII literal into such a string.
\<close>

type_synonym jsstring = "nat list"

definition str :: "string \<Rightarrow> jsstring" where
  "str s = map of_char s"

text \<open>
  \<^verbatim>\<open>s.split(sep)\<close> with a separator of one code unit. The result always has at
  least one piece: \<^verbatim>\<open>''.split('\n')\<close> is \<^verbatim>\<open>['']\<close>.
\<close>

fun split :: "nat \<Rightarrow> jsstring \<Rightarrow> jsstring list" where
  "split sep [] = [[]]"
| "split sep (c # cs) =
     (if c = sep then [] # split sep cs
      else (case split sep cs of [] \<Rightarrow> [[c]] | p # ps \<Rightarrow> (c # p) # ps))"

text \<open>
  \<^verbatim>\<open>xs[i]\<close> on an array: \<open>None\<close> stands for \<^verbatim>\<open>undefined\<close>, which is what
  JavaScript gives for an index past the end.
\<close>

definition element :: "'a list \<Rightarrow> nat \<Rightarrow> 'a option" where
  "element xs i = (if i < length xs then Some (xs ! i) else None)"

text \<open>
  \<^verbatim>\<open>v || ''\<close> for \<open>v\<close> a string or \<^verbatim>\<open>undefined\<close>: both \<^verbatim>\<open>undefined\<close> and the
  empty string are falsy.
\<close>

definition or_empty :: "jsstring option \<Rightarrow> jsstring" where
  "or_empty v = (case v of None \<Rightarrow> [] | Some s \<Rightarrow> (if s = [] then [] else s))"

section \<open>Text compare: \<^verbatim>\<open>findDifferences\<close>\<close>

record difference =
  line :: nat
  left :: jsstring
  right :: jsstring
  type :: string

text \<open>
  The loop \<^verbatim>\<open>for (let i = 0; i < maxLines; i++)\<close> of \<^verbatim>\<open>findDifferences\<close>, with the
  array \<open>differences\<close> threaded through; \<^verbatim>\<open>push\<close> appends at the end.
\<close>

function diff_loop ::
  "jsstring list \<Rightarrow> jsstring list \<Rightarrow> nat \<Rightarrow> nat \<Rightarrow> difference list \<Rightarrow> difference list"
where
  "diff_loop lines1 lines2 maxLines i differences =
     (if i < maxLines then
        (let line1 = or_empty (element lines1 i);
             line2 = or_empty (element lines2 i)
         in diff_loop lines1 lines2 maxLines (i + 1)
              (if line1 \<noteq> line2 then
                 differences @
                   [\<lparr>line = i + 1, left = line1, right = line2,
                     type = (if line1 \<noteq> [] \<and> line2 \<noteq> [] then ''modified''
                             else if line1 \<noteq> [] then ''removed'' else ''added'')\<rparr>]
               else differences))
      else differences)"
  by pat_completeness auto
termination
  by (relation "measure (\<lambda>(lines1, lines2, maxLines, i, differences). maxLines - i)") auto

declare diff_loop.simps [simp del]

definition findDifferences :: "jsstring \<Rightarrow> jsstring \<Rightarrow> difference list" where
  "findDifferences text1 text2 =
     (let lines1 = split 10 text1;
          lines2 = split 10 text2;
          maxLines = max (length lines1) (length lines2)
      in diff_loop lines1 lines2 maxLines 0 [])"

subsection \<open>What the specification says of the text compare\<close>

text \<open>
  The specification's reading: a side past its end counts as the empty string, one record
  per differing line index, the kind of the record chosen by which sides are non-empty.
\<close>

definition side :: "jsstring list \<Rightarrow> nat \<Rightarrow> jsstring" where
  "side ls i = (if i < length ls then ls ! i else [])"

definition spec_type :: "jsstring \<Rightarrow> jsstring \<Rightarrow> string" where
  "spec_type l r =
     (if l \<noteq> [] \<and> r \<noteq> [] then ''modified''
      else if l \<noteq> [] \<and> r = [] then ''removed''
      else ''added'')"

definition spec_record :: "jsstring list \<Rightarrow> jsstring list \<Rightarrow> nat \<Rightarrow> difference" where
  "spec_record ls1 ls2 i =
     \<lparr>line = i + 1, left = side ls1 i, right = side ls2 i,
      type = spec_type (side ls1 i) (side ls2 i)\<rparr>"

definition spec_differences :: "jsstring \<Rightarrow> jsstring \<Rightarrow> difference list" where
  "spec_differences text1 text2 =
     (let ls1 = split 10 text1; ls2 = split 10 text2
      in map (spec_record ls1 ls2)
           (filter (\<lambda>i. side ls1 i \<noteq> side ls2 i) [0..<max (length ls1) (length ls2)]))"

section \<open>Credit-card validation: \<^verbatim>\<open>creditCardValidator\<close>\<close>

text \<open>The class \<^verbatim>\<open>\d\<close> of a regular expression without the unicode flag: 0 to 9.\<close>

definition is_digit :: "nat \<Rightarrow> bool" where
  "is_digit c = (48 \<le> c \<and> c \<le> 57)"

text \<open>
  \<^verbatim>\<open>s.charAt(i)\<close>: the string of the one code unit at \<open>i\<close>, the empty string when
  \<open>i\<close> is out of range.
\<close>

definition charAt :: "jsstring \<Rightarrow> int \<Rightarrow> jsstring" where
  "charAt s i = (if 0 \<le> i \<and> i < int (length s) then [s ! nat i] else [])"

text \<open>
  \<^verbatim>\<open>parseInt\<close> on what \<^verbatim>\<open>charAt\<close> returns, a string of at most one code unit: a
  decimal digit reads as its value, anything else (the empty string too) as \<^verbatim>\<open>NaN\<close>.
  A number that may be \<^verbatim>\<open>NaN\<close> is a \<open>nat option\<close>, \<open>None\<close> for \<^verbatim>\<open>NaN\<close>;
  arithmetic on \<^verbatim>\<open>NaN\<close> gives \<^verbatim>\<open>NaN\<close> and every comparison with it is false.
\<close>

definition parseInt :: "jsstring \<Rightarrow> nat option" where
  "parseInt s = (case s of [c] \<Rightarrow> (if is_digit c then Some (c - 48) else None) | _ \<Rightarrow> None)"

definition times2 :: "nat option \<Rightarrow> nat option" where
  "times2 d = map_option (\<lambda>n. n * 2) d"

definition minus9_if_above9 :: "nat option \<Rightarrow> nat option" where
  "minus9_if_above9 d = (case d of None \<Rightarrow> None | Some n \<Rightarrow> (if n > 9 then Some (n - 9) else Some n))"

definition js_plus :: "nat option \<Rightarrow> nat option \<Rightarrow> nat option" where
  "js_plus a b = (case (a, b) of (Some m, Some n) \<Rightarrow> Some (m + n) | _ \<Rightarrow> None)"

text \<open>
  The loop \<^verbatim>\<open>for (let i = cleaned.length - 1; i >= 0; i--)\<close>, with \<open>sum\<close> and
  \<open>shouldDouble\<close> threaded through.
\<close>

function luhn_loop :: "jsstring \<Rightarrow> int \<Rightarrow> nat option \<Rightarrow> bool \<Rightarrow> nat option" where
  "luhn_loop cleaned i sumv shouldDouble =
     (if i \<ge> 0 then
        (let digit = parseInt (charAt cleaned i);
             digit = (if shouldDouble then minus9_if_above9 (times2 digit) else digit)
         in luhn_loop cleaned (i - 1) (js_plus sumv digit) (\<not> shouldDouble))
      else sumv)"
  by pat_completeness auto
termination
  by (relation "measure (\<lambda>(cleaned, i, sumv, shouldDouble). nat (i + 1))") auto

declare luhn_loop.simps [simp del]

text \<open>
  \<^verbatim>\<open>getCardType\<close> tries the patterns in the order of the object literal: visa
  \<^verbatim>\<open>/^4/\<close>, mastercard \<^verbatim>\<open>/^5[1-5]/\<close>, amex \<^verbatim>\<open>/^3[47]/\<close>, discover
  \<^verbatim>\<open>/^6(?:011|5)/\<close>.
\<close>

definition starts_with :: "jsstring \<Rightarrow> jsstring \<Rightarrow> bool" where
  "starts_with s p = (take (length p) s = p)"

definition getCardType :: "jsstring \<Rightarrow> string" where
  "getCardType number =
     (if starts_with number (str ''4'') then ''visa''
      else if (case number of c0 # c1 # _ \<Rightarrow> c0 = 53 \<and> 49 \<le> c1 \<and> c1 \<le> 53 | _ \<Rightarrow> False)
        then ''mastercard''
      else if starts_with number (str ''34'') \<or> starts_with number (str ''37'') then ''amex''
      else if starts_with number (str ''6011'') \<or> starts_with number (str ''65'') then ''discover''
      else ''unknown'')"


text \<open>
  \<^verbatim>\<open>formatCardNumber\<close> is only called on \<open>cleaned\<close>, a string of decimal digits. On
  16 digits \<^verbatim>\<open>/(\d{4})/g\<close> matches the four groups of four in turn, each replaced by
  itself and a space, and \<^verbatim>\<open>trim\<close> removes the last space; on 15 digits the pattern
  \<^verbatim>\<open>/(\d{4})(\d{6})(\d{5})/\<close> matches the whole string.
\<close>

definition formatCardNumber :: "jsstring \<Rightarrow> jsstring" where
  "formatCardNumber number =
     (if length number = 16 then
        take 4 number @ [32] @ take 4 (drop 4 number) @ [32] @
        take 4 (drop 8 number) @ [32] @ drop 12 number
      else if length number = 15 then
        take 4 number @ [32] @ take 6 (drop 4 number) @ [32] @ drop 10 number
      else number)"

record validation =
  valid :: bool
  type :: string
  formatted :: jsstring

definition creditCardValidator :: "jsstring \<Rightarrow> validation" where
  "creditCardValidator number =
     (let cleaned = filter is_digit number;
          sumv = luhn_loop cleaned (int (length cleaned) - 1) (Some 0) False
      in \<lparr>valid = (case sumv of None \<Rightarrow> False | Some n \<Rightarrow> n mod 10 = 0),
          type = getCardType cleaned,
          formatted = formatCardNumber cleaned\<rparr>)"

subsection \<open>The Luhn checksum, as the specification means it\<close>

text \<open>
  The digits are numbered from the right, starting at 0. A digit at an even position counts
  as it is; a digit at an odd position is doubled, and 9 is taken off a double above 9.
\<close>

definition luhn_term :: "nat \<Rightarrow> nat \<Rightarrow> nat" where
  "luhn_term k d = (if odd k then (if 2 * d > 9 then 2 * d - 9 else 2 * d) else d)"

definition luhn_checksum :: "nat list \<Rightarrow> nat" where
  "luhn_checksum ds = (\<Sum>k<length ds. luhn_term k (rev ds ! k))"

definition digit_value :: "nat \<Rightarrow> nat" where
  "digit_value c = c - 48"


subsection \<open>The leading digits of a card number\<close>

text \<open>The digits \<open>ds\<close> of a number start with the digits \<open>p\<close>.\<close>

definition leading :: "nat list \<Rightarrow> nat list \<Rightarrow> bool" where
  "leading ds p = (take (length p) ds = p)"

section \<open>CSV to JSON: \<^verbatim>\<open>csvToJson\<close>\<close>

text \<open>
  \<^verbatim>\<open>trim\<close> removes the white space and line terminator code points of ECMAScript from
  both ends: tab, line feed, vertical tab, form feed, carriage return, space, no-break
  space, U+1680, U+2000 to U+200A, U+2028, U+2029, U+202F, U+205F, U+3000 and U+FEFF.
\<close>

definition is_whitespace :: "nat \<Rightarrow> bool" where
  "is_whitespace c =
     ((9 \<le> c \<and> c \<le> 13) \<or> c = 32 \<or> c = 160 \<or> c = 5760 \<or> (8192 \<le> c \<and> c \<le> 8202) \<or>
      c = 8232 \<or> c = 8233 \<or> c = 8239 \<or> c = 8287 \<or> c = 12288 \<or> c = 65279)"

definition trim :: "jsstring \<Rightarrow> jsstring" where
  "trim s = rev (dropWhile is_whitespace (rev (dropWhile is_whitespace s)))"

text \<open>
  \<^verbatim>\<open>line.split(',').map(h => h.trim().replace(/"/g, ''))\<close>, the expression that reads
  the header line and every data line.
\<close>

definition cells :: "jsstring \<Rightarrow> jsstring list" where
  "cells l = map (\<lambda>h. filter (\<lambda>c. c \<noteq> 34) (trim h)) (split 44 l)"

text \<open>
  A row object: its own properties, as a map from the key to the value. The assignment
  \<^verbatim>\<open>obj[header] = value\<close> creates or overwrites an own property, except for the key
  \<^verbatim>\<open>__proto__\<close>: on an ordinary object that assignment reaches the accessor inherited
  from \<^verbatim>\<open>Object.prototype\<close>, whose setter ignores a value that is neither an object nor
  \<^verbatim>\<open>null\<close>, so a string assigned to it is dropped and no own property appears.
\<close>

type_synonym row = "jsstring \<rightharpoonup> jsstring"

definition set_property :: "row \<Rightarrow> jsstring \<Rightarrow> jsstring \<Rightarrow> row" where
  "set_property obj key v = (if key = str ''__proto__'' then obj else obj(key \<mapsto> v))"

text \<open>
  \<^verbatim>\<open>headers.forEach((header, index) => { obj[header] = values[index] || ''; })\<close>, from
  the header at position \<open>index\<close> on.
\<close>

fun forEach_header :: "jsstring list \<Rightarrow> nat \<Rightarrow> jsstring list \<Rightarrow> row \<Rightarrow> row" where
  "forEach_header [] index values obj = obj"
| "forEach_header (header # rest) index values obj =
     forEach_header rest (index + 1) values
       (set_property obj header (or_empty (element values index)))"

text \<open>The loop \<^verbatim>\<open>for (let i = 1; i < lines.length; i++)\<close>, with \<open>result\<close> threaded through.\<close>

function csv_loop :: "jsstring list \<Rightarrow> jsstring list \<Rightarrow> nat \<Rightarrow> row list \<Rightarrow> row list" where
  "csv_loop lines headers i result =
     (if i < length lines then
        (let values = cells (lines ! i);
             obj = forEach_header headers 0 values Map.empty
         in csv_loop lines headers (i + 1) (result @ [obj]))
      else result)"
  by pat_completeness auto
termination
  by (relation "measure (\<lambda>(lines, headers, i, result). length lines - i)") auto

declare csv_loop.simps [simp del]

definition csvToJson :: "jsstring \<Rightarrow> row list" where
  "csvToJson csvString =
     (let lines = filter (\<lambda>line. trim line \<noteq> []) (split 10 csvString)
      in if length lines = 0 then []
         else (let headers = cells (lines ! 0) in csv_loop lines headers 1 []))"

subsection \<open>What the specification says of a row\<close>

text \<open>
  The row object for a header line and a data line, as the specification describes it: the
  keys are the column names, the value of a column is the field at the same position, the
  empty string when the data line has no field (or an empty one) there. When a name occurs
  twice, the last column of that name counts: a later assignment overwrites an earlier one.
\<close>

definition columns_named :: "jsstring list \<Rightarrow> jsstring \<Rightarrow> nat list" where
  "columns_named headers k = filter (\<lambda>j. headers ! j = k) [0..<length headers]"

definition spec_row :: "jsstring list \<Rightarrow> jsstring list \<Rightarrow> row" where
  "spec_row headers values k =
     (if k \<in> set headers then Some (side values (last (columns_named headers k))) else None)"

section \<open>The visitor counter store: \<^verbatim>\<open>trackVisitor\<close>\<close>

text \<open>
  The values a property of the visitor record can hold, in a record the code itself has
  written: a counter (a double whose value is a non-negative integer), \<^verbatim>\<open>NaN\<close>,
  \<^verbatim>\<open>null\<close>, the timestamp (an ISO 8601 string, which does not read as a number), and,
  when read through the prototype chain only, a function or object inherited from
  \<^verbatim>\<open>Object.prototype\<close>.
\<close>

datatype jsval = Num nat | NaN | Null | Timestamp jsstring | Inherited

text \<open>The record: its own properties. The visitor file, when it exists, holds one record.\<close>

type_synonym visitor_data = "jsstring \<rightharpoonup> jsval"

type_synonym visitor_file = "visitor_data option"

text \<open>The names every ordinary object inherits from \<^verbatim>\<open>Object.prototype\<close>.\<close>

definition inherited_names :: "jsstring list" where
  "inherited_names =
     map str [''constructor'', ''__proto__'', ''hasOwnProperty'', ''isPrototypeOf'',
       ''propertyIsEnumerable'', ''toLocaleString'', ''toString'', ''valueOf'',
       ''__defineGetter__'', ''__defineSetter__'', ''__lookupGetter__'', ''__lookupSetter__'']"

text \<open>\<^verbatim>\<open>data[key]\<close>, read: \<open>None\<close> is \<^verbatim>\<open>undefined\<close>.\<close>

definition get_property :: "visitor_data \<Rightarrow> jsstring \<Rightarrow> jsval option" where
  "get_property data key =
     (case data key of
        Some v \<Rightarrow> Some v
      | None \<Rightarrow> (if key \<in> set inherited_names then Some Inherited else None))"

text \<open>
  \<^verbatim>\<open>data[key] = v\<close> for a value that is not an object: an own property is created or
  overwritten, except that the inherited setter of \<^verbatim>\<open>__proto__\<close> ignores the value.
\<close>

definition put_property :: "visitor_data \<Rightarrow> jsstring \<Rightarrow> jsval \<Rightarrow> visitor_data" where
  "put_property data key v =
     (if key = str ''__proto__'' \<and> data key = None then data else data(key \<mapsto> v))"

text \<open>
  The value \<^verbatim>\<open>x++\<close> stores. Numbers are doubles: below \<open>2^53\<close> adding 1 is exact;
  from there on \<open>n + 1\<close> is rounded to the nearest double, ties to even. Between
  \<open>2^53\<close> and \<open>2^54\<close> the doubles are the even numbers, \<open>n + 1\<close> lies halfway
  between \<open>n\<close> and \<open>n + 2\<close>, and the one with the even significand \<open>n div 2\<close> wins;
  from \<open>2^54\<close> on \<open>n + 1\<close> rounds back to \<open>n\<close>. \<^verbatim>\<open>null\<close> counts as 0;
  \<^verbatim>\<open>undefined\<close>, \<^verbatim>\<open>NaN\<close>, an inherited function or object and the timestamp
  give \<^verbatim>\<open>NaN\<close>.
\<close>

definition incremented :: "jsval option \<Rightarrow> jsval" where
  "incremented v =
     (case v of
        Some (Num n) \<Rightarrow>
          Num (if n < 2 ^ 53 then n + 1 else if n < 2 ^ 54 \<and> odd (n div 2) then n + 2 else n)
      | Some Null \<Rightarrow> Num 1
      | _ \<Rightarrow> NaN)"

text \<open>
  What \<^verbatim>\<open>JSON.parse\<close> reads back from what \<^verbatim>\<open>JSON.stringify\<close> wrote: \<^verbatim>\<open>NaN\<close> is
  written as \<^verbatim>\<open>null\<close>, counters and strings are written as they are.
\<close>

definition through_json :: "visitor_data \<Rightarrow> visitor_data" where
  "through_json data = map_option (\<lambda>v. if v = NaN then Null else v) \<circ> data"

definition fresh_data :: "jsstring \<Rightarrow> visitor_data" where
  "fresh_data now =
     [str ''total'' \<mapsto> Num 0, str ''web'' \<mapsto> Num 0, str ''api'' \<mapsto> Num 0,
      str ''lastUpdated'' \<mapsto> Timestamp now]"

text \<open>
  \<^verbatim>\<open>trackVisitor(type)\<close>, the parameter written \<open>type'\<close>. \<open>now\<close> is the timestamp \<^verbatim>\<open>new Date().toISOString()\<close>,
  \<open>io_ok\<close> tells whether reading, parsing and writing the file all succeed; when one of
  them throws, the \<^verbatim>\<open>catch\<close> returns a fresh record and the file is as it was. The
  result is the record returned and the file afterwards.
\<close>

definition trackVisitor ::
  "jsstring \<Rightarrow> jsstring \<Rightarrow> bool \<Rightarrow> visitor_file \<Rightarrow> visitor_data \<times> visitor_file" where
  "trackVisitor type' now io_ok file =
     (if \<not> io_ok then (fresh_data now, file)
      else
        (let data = (case file of None \<Rightarrow> fresh_data now | Some fileData \<Rightarrow> fileData);
             data = put_property data (str ''total'') (incremented (get_property data (str ''total'')));
             data = (if get_property data type' \<noteq> None
                     then put_property data type' (incremented (get_property data type'))
                     else put_property data type' (Num 1));
             data = put_property data (str ''lastUpdated'') (Timestamp now)
         in (data, Some (through_json data))))"

text \<open>
  The handler of \<^verbatim>\<open>POST api/visitors/track\<close> takes the type from the body,
  \<^verbatim>\<open>payload.type || 'web'\<close>: \<open>None\<close> is a body without a type, and an empty string is
  falsy as well.
\<close>

definition track_type :: "jsstring option \<Rightarrow> jsstring" where
  "track_type supplied = (case supplied of None \<Rightarrow> str ''web'' | Some t \<Rightarrow> (if t = [] then str ''web'' else t))"

text \<open>
  A sequence of tracking calls, each with the type supplied and its timestamp, all
  without an I/O failure: the file after the last call.
\<close>

fun track_calls :: "(jsstring option \<times> jsstring) list \<Rightarrow> visitor_file \<Rightarrow> visitor_file" where
  "track_calls [] file = file"
| "track_calls ((supplied, now) # calls) file =
     track_calls calls (snd (trackVisitor (track_type supplied) now True file))"

text \<open>
  \<^verbatim>\<open>getVisitorStats\<close>: the record in the file, a fresh record when there is no file or
  when reading it throws.
\<close>

definition getVisitorStats :: "jsstring \<Rightarrow> bool \<Rightarrow> visitor_file \<Rightarrow> visitor_data" where
  "getVisitorStats now io_ok file =
     (if \<not> io_ok then fresh_data now
      else (case file of Some fileData \<Rightarrow> fileData | None \<Rightarrow> fresh_data now))"

section \<open>The request router\<close>

text \<open>
  What \<^verbatim>\<open>JSON.parse\<close> returns. A number is the rational value of the double, or an
  infinity (a literal too large for a double reads as one); \<^verbatim>\<open>JSON.parse\<close> never gives
  \<^verbatim>\<open>NaN\<close>, and \<open>Finite 0\<close> stands for both zeros. An object is the list of its own
  properties.
\<close>

datatype jsnumber = Finite rat | Infinity | MinusInfinity

datatype json =
    JNull
  | JBool bool
  | JNum jsnumber
  | JStr jsstring
  | JArr "json list"
  | JObj "(jsstring \<times> json) list"

text \<open>
  What an exception carries: \<^verbatim>\<open>new Error(message)\<close> thrown by the code, the
  \<^verbatim>\<open>TypeError\<close> the engine throws when a property of \<^verbatim>\<open>null\<close> is read, whose
  message is the engine's own and names the property, or the \<^verbatim>\<open>URIError\<close> of
  \<^verbatim>\<open>encodeURIComponent\<close> and \<^verbatim>\<open>decodeURIComponent\<close>.
\<close>

datatype thrown = Error string | TypeError_reading_null string | URIError

text \<open>
  \<^verbatim>\<open>payload.field\<close> for the fields the router validates. \<open>None\<close> is \<^verbatim>\<open>undefined\<close>:
  none of these names is a property of a string, a number, a boolean or an array, or
  inherited from \<^verbatim>\<open>Object.prototype\<close>.
\<close>

definition get_field :: "json \<Rightarrow> string \<Rightarrow> thrown + json option" where
  "get_field payload field =
     (case payload of
        JNull \<Rightarrow> Inl (TypeError_reading_null field)
      | JObj properties \<Rightarrow> Inr (map_of properties (str field))
      | _ \<Rightarrow> Inr None)"

text \<open>Truthiness: what \<^verbatim>\<open>!v\<close> and \<^verbatim>\<open>v || d\<close> test.\<close>

definition truthy :: "json option \<Rightarrow> bool" where
  "truthy v =
     (case v of
        None \<Rightarrow> False
      | Some JNull \<Rightarrow> False
      | Some (JBool b) \<Rightarrow> b
      | Some (JNum n) \<Rightarrow> n \<noteq> Finite 0
      | Some (JStr s) \<Rightarrow> s \<noteq> []
      | Some (JArr _) \<Rightarrow> True
      | Some (JObj _) \<Rightarrow> True)"

text \<open>
  \<^verbatim>\<open>if (!payload.a || !payload.b) throw new Error(message)\<close>, followed by the rest of
  the case: the fields are read and tested from left to right.
\<close>

fun require :: "json \<Rightarrow> string list \<Rightarrow> string \<Rightarrow> thrown + 'r \<Rightarrow> thrown + 'r" where
  "require payload [] message rest = rest"
| "require payload (field # others) message rest =
     (case get_field payload field of
        Inl e \<Rightarrow> Inl e
      | Inr v \<Rightarrow> (if \<not> truthy v then Inl (Error message) else require payload others message rest))"

text \<open>
  The \<^verbatim>\<open>switch (trimmedPath)\<close> of the router. \<open>tools path payload\<close> stands for the rest
  of a case after its validation: the call of the transform on the fields of the payload
  and the serialisation of the result, which gives the result or throws.
\<close>

definition dispatch :: "(jsstring \<Rightarrow> json \<Rightarrow> thrown + 'r) \<Rightarrow> jsstring \<Rightarrow> json \<Rightarrow> thrown + 'r" where
  "dispatch tools trimmedPath payload =
     (let rest = tools trimmedPath payload in
      if trimmedPath = str ''api/base64/encode'' then
        require payload [''text''] ''Text is required'' rest
      else if trimmedPath = str ''api/base64/decode'' then
        require payload [''encoded''] ''Encoded string is required'' rest
      else if trimmedPath = str ''api/convert/xml-to-json'' then
        require payload [''xml''] ''XML is required'' rest
      else if trimmedPath = str ''api/convert/json-to-xml'' then
        require payload [''json''] ''JSON is required'' rest
      else if trimmedPath = str ''api/convert/csv-to-json'' then
        require payload [''csv''] ''CSV is required'' rest
      else if trimmedPath = str ''api/convert/csv-to-xml'' then
        require payload [''csv''] ''CSV is required'' rest
      else if trimmedPath = str ''api/convert/url-encode'' then
        require payload [''text''] ''Text is required'' rest
      else if trimmedPath = str ''api/convert/url-decode'' then
        require payload [''encoded''] ''Encoded string is required'' rest
      else if trimmedPath = str ''api/convert/timestamp'' then
        require payload [''timestamp''] ''Timestamp is required'' rest
      else if trimmedPath = str ''api/format/json'' then
        require payload [''json''] ''JSON is required'' rest
      else if trimmedPath = str ''api/format/json-minify'' then
        require payload [''json''] ''JSON is required'' rest
      else if trimmedPath = str ''api/format/xml-minify'' then
        require payload [''xml''] ''XML is required'' rest
      else if trimmedPath = str ''api/generate/password'' then rest
      else if trimmedPath = str ''api/generate/hash'' then
        require payload [''text'', ''algorithm''] ''Text and algorithm are required'' rest
      else if trimmedPath = str ''api/generate/uuid'' then rest
      else if trimmedPath = str ''api/generate/random'' then rest
      else if trimmedPath = str ''api/decode/jwt'' then
        require payload [''token''] ''JWT token is required'' rest
      else if trimmedPath = str ''api/compare/text'' then
        require payload [''text1'', ''text2''] ''Both texts are required'' rest
      else if trimmedPath = str ''api/tools/html-escape'' then
        require payload [''text''] ''Text is required'' rest
      else if trimmedPath = str ''api/tools/html-unescape'' then
        require payload [''text''] ''Text is required'' rest
      else if trimmedPath = str ''api/tools/string-length'' then
        require payload [''text''] ''Text is required'' rest
      else if trimmedPath = str ''api/tools/convert-case'' then
        require payload [''text'', ''caseType''] ''Text and case type are required'' rest
      else if trimmedPath = str ''api/tools/format-sql'' then
        require payload [''sql''] ''SQL is required'' rest
      else if trimmedPath = str ''api/tools/validate-credit-card'' then
        require payload [''number''] ''Credit card number is required'' rest
      else if trimmedPath = str ''api/tools/validate-ip'' then
        require payload [''ip''] ''IP address is required'' rest
      else if trimmedPath = str ''api/tools/validate-mac'' then
        require payload [''mac''] ''MAC address is required'' rest
      else if trimmedPath = str ''api/tools/lorem-ipsum'' then rest
      else if trimmedPath = str ''api/tools/checksum'' then
        require payload [''text'', ''algorithm''] ''Text and algorithm are required'' rest
      else if trimmedPath = str ''api/tools/qr-code'' then
        require payload [''text''] ''Text is required'' rest
      else Inl (Error ''Endpoint not found''))"

text \<open>
  The body of a request, by what \<^verbatim>\<open>buffer ? JSON.parse(buffer) : {}\<close> makes of it: the
  empty body, a body that \<^verbatim>\<open>JSON.parse\<close> rejects, a body it reads as a value.
\<close>

datatype body = EmptyBody | InvalidJSON | WellFormed json

definition payload_of :: "body \<Rightarrow> json option" where
  "payload_of b = (case b of EmptyBody \<Rightarrow> Some (JObj []) | InvalidJSON \<Rightarrow> None | WellFormed v \<Rightarrow> Some v)"

text \<open>What a response carries: the status and what is written as its body.\<close>

datatype 'r content =
    Empty
  | Html
  | Health "jsval option"
  | Stats visitor_data
  | Tracked visitor_data
  | Result 'r
  | Failure thrown

type_synonym 'r response = "nat \<times> 'r content"

text \<open>\<^verbatim>\<open>path.replace(/^\/+|\/+$/g, '')\<close>: the slashes at both ends are removed.\<close>

definition trim_slashes :: "jsstring \<Rightarrow> jsstring" where
  "trim_slashes p = rev (dropWhile (\<lambda>c. c = 47) (rev (dropWhile (\<lambda>c. c = 47) p)))"

text \<open>
  The handler of \<^verbatim>\<open>POST api/visitors/track\<close>. The type is \<^verbatim>\<open>payload.type || 'web'\<close>.
  A string is its own property key; a truthy type that is not a string is converted to a
  key by the engine (\<open>to_key\<close>) when \<^verbatim>\<open>trackVisitor\<close> reads \<^verbatim>\<open>data[type]\<close>, inside
  its \<^verbatim>\<open>try\<close>: when the conversion throws (\<open>None\<close>), the \<^verbatim>\<open>catch\<close> of
  \<^verbatim>\<open>trackVisitor\<close> returns a fresh record and nothing is written. The record goes
  through \<^verbatim>\<open>JSON.stringify\<close> into the body. An exception of the handler itself ends in
  the answer 400 "Invalid JSON".
\<close>

definition visitors_track ::
  "(json \<Rightarrow> jsstring option) \<Rightarrow> jsstring \<Rightarrow> bool \<Rightarrow> body \<Rightarrow> visitor_file \<Rightarrow>
   'r response \<times> visitor_file" where
  "visitors_track to_key now io_ok b file =
     (case payload_of b of
        None \<Rightarrow> ((400, Failure (Error ''Invalid JSON'')), file)
      | Some payload \<Rightarrow>
          (case get_field payload ''type'' of
             Inl e \<Rightarrow> ((400, Failure (Error ''Invalid JSON'')), file)
           | Inr v \<Rightarrow>
               (let type' = (if truthy v
                             then (case v of Some (JStr s) \<Rightarrow> Some s | Some w \<Rightarrow> to_key w
                                   | None \<Rightarrow> None)
                             else Some (str ''web''));
                    (stats, file) = (case type' of
                                       None \<Rightarrow> (fresh_data now, file)
                                     | Some key \<Rightarrow> trackVisitor key now io_ok file)
                in ((200, Tracked (through_json stats)), file))))"

text \<open>
  The handler of every other \<^verbatim>\<open>POST\<close> under \<^verbatim>\<open>api/\<close>, after its call of
  \<^verbatim>\<open>trackVisitor('api')\<close>.
\<close>

definition api_post :: "(jsstring \<Rightarrow> json \<Rightarrow> thrown + 'r) \<Rightarrow> jsstring \<Rightarrow> body \<Rightarrow> 'r response" where
  "api_post tools trimmedPath b =
     (case payload_of b of
        None \<Rightarrow> (400, Failure (Error ''Invalid JSON payload''))
      | Some payload \<Rightarrow>
          (case dispatch tools trimmedPath payload of
             Inl apiError \<Rightarrow> (400, Failure apiError)
           | Inr result \<Rightarrow> (200, Result result)))"

text \<open>
  The request listener: the method, the path of the URL and the body of the request give
  the response and the visitor file afterwards.
\<close>

definition handle_request ::
  "(jsstring \<Rightarrow> json \<Rightarrow> thrown + 'r) \<Rightarrow> (json \<Rightarrow> jsstring option) \<Rightarrow> jsstring \<Rightarrow> bool \<Rightarrow>
   string \<Rightarrow> jsstring \<Rightarrow> body \<Rightarrow> visitor_file \<Rightarrow> 'r response \<times> visitor_file" where
  "handle_request tools to_key now io_ok meth path b file =
     (let trimmedPath = trim_slashes path;
          file = (if meth = ''GET'' \<and> \<not> starts_with trimmedPath (str ''api/'')
                  then snd (trackVisitor (str ''web'') now io_ok file) else file)
      in if meth = ''OPTIONS'' then ((200, Empty), file)
         else if trimmedPath = str ''api/health'' then
           (let file = snd (trackVisitor (str ''api'') now io_ok file)
            in ((200, Health (getVisitorStats now io_ok file (str ''total''))), file))
         else if trimmedPath = str ''api/visitors/stats'' \<and> meth = ''GET'' then
           ((200, Stats (getVisitorStats now io_ok file)), file)
         else if trimmedPath = str ''api/visitors/track'' \<and> meth = ''POST'' then
           visitors_track to_key now io_ok b file
         else if meth = ''POST'' \<and> starts_with trimmedPath (str ''api/'') then
           (let file = snd (trackVisitor (str ''api'') now io_ok file)
            in (api_post tools trimmedPath b, file))
         else if meth = ''GET'' then ((200, Html), file)
         else ((404, Failure (Error ''Not found'')), file))"


subsection \<open>The validation table of the specification\<close>

text \<open>
  The tools with required fields: the path, the fields and the message of the validation
  error; and the paths of all the tools of the dispatch.
\<close>

definition required_fields :: "(string \<times> string list \<times> string) list" where
  "required_fields =
     [(''api/base64/encode'', [''text''], ''Text is required''),
      (''api/base64/decode'', [''encoded''], ''Encoded string is required''),
      (''api/convert/xml-to-json'', [''xml''], ''XML is required''),
      (''api/convert/json-to-xml'', [''json''], ''JSON is required''),
      (''api/convert/csv-to-json'', [''csv''], ''CSV is required''),
      (''api/convert/csv-to-xml'', [''csv''], ''CSV is required''),
      (''api/convert/url-encode'', [''text''], ''Text is required''),
      (''api/convert/url-decode'', [''encoded''], ''Encoded string is required''),
      (''api/convert/timestamp'', [''timestamp''], ''Timestamp is required''),
      (''api/format/json'', [''json''], ''JSON is required''),
      (''api/format/json-minify'', [''json''], ''JSON is required''),
      (''api/format/xml-minify'', [''xml''], ''XML is required''),
      (''api/generate/hash'', [''text'', ''algorithm''], ''Text and algorithm are required''),
      (''api/decode/jwt'', [''token''], ''JWT token is required''),
      (''api/compare/text'', [''text1'', ''text2''], ''Both texts are required''),
      (''api/tools/html-escape'', [''text''], ''Text is required''),
      (''api/tools/html-unescape'', [''text''], ''Text is required''),
      (''api/tools/string-length'', [''text''], ''Text is required''),
      (''api/tools/convert-case'', [''text'', ''caseType''], ''Text and case type are required''),
      (''api/tools/format-sql'', [''sql''], ''SQL is required''),
      (''api/tools/validate-credit-card'', [''number''], ''Credit card number is required''),
      (''api/tools/validate-ip'', [''ip''], ''IP address is required''),
      (''api/tools/validate-mac'', [''mac''], ''MAC address is required''),
      (''api/tools/checksum'', [''text'', ''algorithm''], ''Text and algorithm are required''),
      (''api/tools/qr-code'', [''text''], ''Text is required'')]"

definition tool_paths :: "string list" where
  "tool_paths =
     map fst required_fields @
     [''api/generate/password'', ''api/generate/uuid'', ''api/generate/random'',
      ''api/tools/lorem-ipsum'']"

text \<open>
  For running the router on a concrete request: a tool that returns its payload, and a
  key conversion for requests whose type, if any, is a string.
\<close>

definition echo :: "jsstring \<Rightarrow> json \<Rightarrow> thrown + json" where
  "echo trimmedPath payload = Inr payload"

definition no_key :: "json \<Rightarrow> jsstring option" where
  "no_key v = None"

text \<open>A validation message of the shape "<Field> is required".\<close>

definition field_is_required :: "string \<Rightarrow> bool" where
  "field_is_required message =
     (12 < length message \<and> drop (length message - 12) message = '' is required'')"

section \<open>Text encodings of the platform\<close>

text \<open>
  \<^verbatim>\<open>Buffer\<close>, \<^verbatim>\<open>encodeURIComponent\<close> and \<^verbatim>\<open>decodeURIComponent\<close> belong to Node.js and
  ECMAScript, not to the repository. They are defined here as their specifications
  describe them. A byte is a number below 256, a code point a number below \<open>0x110000\<close>.
\<close>

subsection \<open>UTF-16\<close>

definition is_high_surrogate :: "nat \<Rightarrow> bool" where
  "is_high_surrogate u = (0xD800 \<le> u \<and> u \<le> 0xDBFF)"

definition is_low_surrogate :: "nat \<Rightarrow> bool" where
  "is_low_surrogate u = (0xDC00 \<le> u \<and> u \<le> 0xDFFF)"

definition is_surrogate :: "nat \<Rightarrow> bool" where
  "is_surrogate u = (0xD800 \<le> u \<and> u \<le> 0xDFFF)"

text \<open>
  The code points of a string: a high surrogate followed by a low surrogate is one code
  point above \<open>0xFFFF\<close>; any other code unit, an unpaired surrogate too, is the code
  point of its own number.
\<close>

fun code_points :: "jsstring \<Rightarrow> nat list" where
  "code_points [] = []"
| "code_points [u] = [u]"
| "code_points (u # v # rest) =
     (if is_high_surrogate u \<and> is_low_surrogate v
      then (0x10000 + (u - 0xD800) * 1024 + (v - 0xDC00)) # code_points rest
      else u # code_points (v # rest))"

text \<open>The code units of a code point.\<close>

definition utf16_units :: "nat \<Rightarrow> jsstring" where
  "utf16_units cp =
     (if cp < 0x10000 then [cp]
      else [0xD800 + (cp - 0x10000) div 1024, 0xDC00 + (cp - 0x10000) mod 1024])"

text \<open>
  Well-formed text: every code unit is a 16-bit number and no surrogate is unpaired.
\<close>

definition well_formed :: "jsstring \<Rightarrow> bool" where
  "well_formed s = (list_all (\<lambda>u. u < 0x10000) s \<and> list_all (\<lambda>cp. \<not> is_surrogate cp) (code_points s))"

text \<open>A Unicode scalar value: a code point that is not a surrogate.\<close>

definition scalar :: "nat \<Rightarrow> bool" where
  "scalar cp = (cp < 0x110000 \<and> \<not> is_surrogate cp)"

subsection \<open>UTF-8\<close>

definition utf8_bytes :: "nat \<Rightarrow> nat list" where
  "utf8_bytes cp =
     (if cp < 0x80 then [cp]
      else if cp < 0x800 then [0xC0 + cp div 64, 0x80 + cp mod 64]
      else if cp < 0x10000 then [0xE0 + cp div 4096, 0x80 + cp div 64 mod 64, 0x80 + cp mod 64]
      else [0xF0 + cp div 262144, 0x80 + cp div 4096 mod 64, 0x80 + cp div 64 mod 64,
            0x80 + cp mod 64])"

text \<open>
  \<^verbatim>\<open>Buffer.from(text)\<close>: the UTF-8 encoding of the string, an unpaired surrogate encoded
  as the replacement character U+FFFD.
\<close>

definition utf8_encode :: "jsstring \<Rightarrow> nat list" where
  "utf8_encode text =
     concat (map (\<lambda>cp. utf8_bytes (if is_surrogate cp then 0xFFFD else cp)) (code_points text))"

definition continuation :: "nat \<Rightarrow> bool" where
  "continuation b = (0x80 \<le> b \<and> b \<le> 0xBF)"

text \<open>
  The second byte of a sequence of three or four bytes has a narrower range after the
  lead bytes \<open>E0\<close>, \<open>ED\<close>, \<open>F0\<close> and \<open>F4\<close>: no overlong encoding, no surrogate, nothing
  above \<open>0x10FFFF\<close>.
\<close>

definition second_byte :: "nat \<Rightarrow> nat \<Rightarrow> bool" where
  "second_byte b0 b1 =
     ((if b0 = 0xE0 then 0xA0 else if b0 = 0xF0 then 0x90 else 0x80) \<le> b1 \<and>
      b1 \<le> (if b0 = 0xED then 0x9F else if b0 = 0xF4 then 0x8F else 0xBF))"

text \<open>
  The decoder of \<^verbatim>\<open>buf.toString('utf8')\<close>: the code points of a byte sequence, each
  maximal ill-formed part read as U+FFFD.
\<close>

fun utf8_code_points :: "nat list \<Rightarrow> nat list" where
  "utf8_code_points [] = []"
| "utf8_code_points (b0 # bs) =
     (if b0 < 0x80 then b0 # utf8_code_points bs
      else if 0xC2 \<le> b0 \<and> b0 \<le> 0xDF then
        (case bs of
           [] \<Rightarrow> [0xFFFD]
         | b1 # bs1 \<Rightarrow>
             if continuation b1 then ((b0 - 0xC0) * 64 + (b1 - 0x80)) # utf8_code_points bs1
             else 0xFFFD # utf8_code_points bs)
      else if 0xE0 \<le> b0 \<and> b0 \<le> 0xEF then
        (case bs of
           [] \<Rightarrow> [0xFFFD]
         | b1 # bs1 \<Rightarrow>
             if second_byte b0 b1 then
               (case bs1 of
                  [] \<Rightarrow> [0xFFFD]
                | b2 # bs2 \<Rightarrow>
                    if continuation b2
                    then ((b0 - 0xE0) * 4096 + (b1 - 0x80) * 64 + (b2 - 0x80)) # utf8_code_points bs2
                    else 0xFFFD # utf8_code_points bs1)
             else 0xFFFD # utf8_code_points bs)
      else if 0xF0 \<le> b0 \<and> b0 \<le> 0xF4 then
        (case bs of
           [] \<Rightarrow> [0xFFFD]
         | b1 # bs1 \<Rightarrow>
             if second_byte b0 b1 then
               (case bs1 of
                  [] \<Rightarrow> [0xFFFD]
                | b2 # bs2 \<Rightarrow>
                    if continuation b2 then
                      (case bs2 of
                         [] \<Rightarrow> [0xFFFD]
                       | b3 # bs3 \<Rightarrow>
                           if continuation b3
                           then ((b0 - 0xF0) * 262144 + (b1 - 0x80) * 4096 + (b2 - 0x80) * 64 +
                                 (b3 - 0x80)) # utf8_code_points bs3
                           else 0xFFFD # utf8_code_points bs2)
                    else 0xFFFD # utf8_code_points bs1)
             else 0xFFFD # utf8_code_points bs)
      else 0xFFFD # utf8_code_points bs)"

definition utf8_decode :: "nat list \<Rightarrow> jsstring" where
  "utf8_decode bytes = concat (map utf16_units (utf8_code_points bytes))"

subsection \<open>Base64\<close>

text \<open>The character of a 6-bit value in the alphabet \<^verbatim>\<open>A-Z a-z 0-9 + /\<close>.\<close>

definition base64_char :: "nat \<Rightarrow> nat" where
  "base64_char v =
     (if v < 26 then 65 + v else if v < 52 then 97 + (v - 26) else if v < 62 then 48 + (v - 52)
      else if v = 62 then 43 else 47)"

text \<open>\<^verbatim>\<open>buf.toString('base64')\<close>: three bytes give four characters, the end is padded.\<close>

fun base64_of_bytes :: "nat list \<Rightarrow> jsstring" where
  "base64_of_bytes (x # y # z # rest) =
     [base64_char (x div 4), base64_char (x mod 4 * 16 + y div 16),
      base64_char (y mod 16 * 4 + z div 64), base64_char (z mod 64)] @ base64_of_bytes rest"
| "base64_of_bytes [x, y] =
     [base64_char (x div 4), base64_char (x mod 4 * 16 + y div 16), base64_char (y mod 16 * 4), 61]"
| "base64_of_bytes [x] = [base64_char (x div 4), base64_char (x mod 4 * 16), 61, 61]"
| "base64_of_bytes [] = []"

text \<open>
  The value of a character for the decoder of Node.js, which accepts the URL-safe
  characters \<^verbatim>\<open>-\<close> and \<^verbatim>\<open>_\<close> as well; \<open>None\<close> for any other character.
\<close>

definition unbase64 :: "nat \<Rightarrow> nat option" where
  "unbase64 c =
     (if 65 \<le> c \<and> c \<le> 90 then Some (c - 65)
      else if 97 \<le> c \<and> c \<le> 122 then Some (c - 71)
      else if 48 \<le> c \<and> c \<le> 57 then Some (c + 4)
      else if c = 43 \<or> c = 45 then Some 62
      else if c = 47 \<or> c = 95 then Some 63
      else None)"

text \<open>
  \<^verbatim>\<open>Buffer.from(encoded, 'base64')\<close> never rejects a string. The decoder reads the low
  byte of each code unit, stops at the first \<^verbatim>\<open>=\<close>, skips every character outside the
  alphabet, and turns the 6-bit values it has read into bytes, dropping the bits left
  over.
\<close>

fun sextets :: "jsstring \<Rightarrow> nat list" where
  "sextets [] = []"
| "sextets (c # cs) =
     (if c mod 256 = 61 then []
      else (case unbase64 (c mod 256) of None \<Rightarrow> sextets cs | Some v \<Rightarrow> v # sextets cs))"

fun bytes_of_sextets :: "nat list \<Rightarrow> nat list" where
  "bytes_of_sextets (a # b # c # d # rest) =
     [a * 4 + b div 16, b mod 16 * 16 + c div 4, c mod 4 * 64 + d] @ bytes_of_sextets rest"
| "bytes_of_sextets [a, b, c] = [a * 4 + b div 16, b mod 16 * 16 + c div 4]"
| "bytes_of_sextets [a, b] = [a * 4 + b div 16]"
| "bytes_of_sextets _ = []"

definition bytes_of_base64 :: "jsstring \<Rightarrow> nat list" where
  "bytes_of_base64 encoded = bytes_of_sextets (sextets encoded)"

section \<open>Base64 and JWT: \<^verbatim>\<open>base64Encode\<close>, \<^verbatim>\<open>base64Decode\<close>, \<^verbatim>\<open>jwtDecode\<close>\<close>

definition base64Encode :: "jsstring \<Rightarrow> jsstring" where
  "base64Encode text = base64_of_bytes (utf8_encode text)"

text \<open>
  \<^verbatim>\<open>base64Decode\<close> wraps the two platform calls in \<^verbatim>\<open>try\<close>; its \<^verbatim>\<open>catch\<close> would throw
  "Invalid Base64 string". \<open>buffer_from_base64\<close> is the call that could throw: on a string
  it never does.
\<close>

definition buffer_from_base64 :: "jsstring \<Rightarrow> thrown + nat list" where
  "buffer_from_base64 encoded = Inr (bytes_of_base64 encoded)"

definition base64Decode :: "jsstring \<Rightarrow> thrown + jsstring" where
  "base64Decode encoded =
     (case buffer_from_base64 encoded of
        Inl e \<Rightarrow> Inl (Error ''Invalid Base64 string'')
      | Inr buffer \<Rightarrow> Inr (utf8_decode buffer))"

text \<open>
  \<^verbatim>\<open>jwtDecode\<close>. \<open>json_parse\<close> is \<^verbatim>\<open>JSON.parse\<close>, \<open>None\<close> when it throws. The body of
  the \<^verbatim>\<open>try\<close> is \<open>jwt_try\<close>; the \<^verbatim>\<open>catch\<close> replaces whatever was thrown, the format
  error of the first line too, by "Invalid JWT token".
\<close>

definition jwt_try :: "(jsstring \<Rightarrow> 'v option) \<Rightarrow> jsstring \<Rightarrow> thrown + 'v \<times> 'v" where
  "jwt_try json_parse token =
     (let parts = split 46 token in
      if length parts \<noteq> 3 then Inl (Error ''Invalid JWT format'')
      else
        (case json_parse (utf8_decode (bytes_of_base64 (parts ! 0))) of
           None \<Rightarrow> Inl (Error ''SyntaxError'')
         | Some header \<Rightarrow>
             (case json_parse (utf8_decode (bytes_of_base64 (parts ! 1))) of
                None \<Rightarrow> Inl (Error ''SyntaxError'')
              | Some payload \<Rightarrow> Inr (header, payload))))"

definition jwtDecode :: "(jsstring \<Rightarrow> 'v option) \<Rightarrow> jsstring \<Rightarrow> thrown + 'v \<times> 'v" where
  "jwtDecode json_parse token =
     (case jwt_try json_parse token of
        Inl e \<Rightarrow> Inl (Error ''Invalid JWT token'')
      | Inr decoded \<Rightarrow> Inr decoded)"

subsection \<open>Percent-encoding\<close>

text \<open>
  The characters \<^verbatim>\<open>encodeURIComponent\<close> leaves as they are: letters, digits and
  \<^verbatim>\<open>- _ . ! ~ * ' ( )\<close>.
\<close>

definition unreserved :: "nat \<Rightarrow> bool" where
  "unreserved c =
     ((48 \<le> c \<and> c \<le> 57) \<or> (65 \<le> c \<and> c \<le> 90) \<or> (97 \<le> c \<and> c \<le> 122) \<or>
      c \<in> set [45, 95, 46, 33, 126, 42, 39, 40, 41])"

definition hex_digit :: "nat \<Rightarrow> nat" where
  "hex_digit v = (if v < 10 then 48 + v else 55 + v)"

text \<open>A byte as \<^verbatim>\<open>%XY\<close>, with upper-case hexadecimal digits.\<close>

definition percent :: "nat \<Rightarrow> jsstring" where
  "percent b = [37, hex_digit (b div 16), hex_digit (b mod 16)]"

definition encode_code_point :: "nat \<Rightarrow> jsstring" where
  "encode_code_point cp = (if unreserved cp then [cp] else concat (map percent (utf8_bytes cp)))"

text \<open>
  \<^verbatim>\<open>encodeURIComponent\<close> throws a \<^verbatim>\<open>URIError\<close> when the string has an unpaired
  surrogate; otherwise every code point that is not unreserved is replaced by the escapes
  of its UTF-8 bytes.
\<close>

definition encodeURIComponent :: "jsstring \<Rightarrow> thrown + jsstring" where
  "encodeURIComponent s =
     (if list_ex is_surrogate (code_points s) then Inl URIError
      else Inr (concat (map encode_code_point (code_points s))))"

definition hex_value :: "nat \<Rightarrow> nat option" where
  "hex_value c =
     (if 48 \<le> c \<and> c \<le> 57 then Some (c - 48)
      else if 65 \<le> c \<and> c \<le> 70 then Some (c - 55)
      else if 97 \<le> c \<and> c \<le> 102 then Some (c - 87)
      else None)"

text \<open>An escape \<^verbatim>\<open>%XY\<close> at the head of a string: its byte and the rest of the string.\<close>

fun escape :: "jsstring \<Rightarrow> (nat \<times> jsstring) option" where
  "escape (p # x # y # rest) =
     (if p = 37 then
        (case (hex_value x, hex_value y) of
           (Some h, Some l) \<Rightarrow> Some (16 * h + l, rest)
         | _ \<Rightarrow> None)
      else None)"
| "escape _ = None"

fun escapes :: "nat \<Rightarrow> jsstring \<Rightarrow> (nat list \<times> jsstring) option" where
  "escapes 0 s = Some ([], s)"
| "escapes (Suc n) s =
     (case escape s of
        None \<Rightarrow> None
      | Some (b, rest) \<Rightarrow>
          (case escapes n rest of None \<Rightarrow> None | Some (following, rest') \<Rightarrow> Some (b # following, rest')))"

text \<open>The code point of a byte sequence that is the UTF-8 encoding of one code point.\<close>

fun utf8_sequence :: "nat list \<Rightarrow> nat option" where
  "utf8_sequence [b0, b1] =
     (if 0xC2 \<le> b0 \<and> b0 \<le> 0xDF \<and> continuation b1
      then Some ((b0 - 0xC0) * 64 + (b1 - 0x80)) else None)"
| "utf8_sequence [b0, b1, b2] =
     (if 0xE0 \<le> b0 \<and> b0 \<le> 0xEF \<and> second_byte b0 b1 \<and> continuation b2
      then Some ((b0 - 0xE0) * 4096 + (b1 - 0x80) * 64 + (b2 - 0x80)) else None)"
| "utf8_sequence [b0, b1, b2, b3] =
     (if 0xF0 \<le> b0 \<and> b0 \<le> 0xF4 \<and> second_byte b0 b1 \<and> continuation b2 \<and> continuation b3
      then Some ((b0 - 0xF0) * 262144 + (b1 - 0x80) * 4096 + (b2 - 0x80) * 64 + (b3 - 0x80))
      else None)"
| "utf8_sequence _ = None"

lemma escape_shorter: "escape s = Some (b, rest) \<Longrightarrow> length rest < length s"
  by (induction s rule: escape.induct) (auto split: if_splits option.splits)

lemma escapes_not_longer: "escapes n s = Some (following, rest) \<Longrightarrow> length rest \<le> length s"
proof (induction n arbitrary: s following rest)
  case 0
  then show ?case by simp
next
  case (Suc n)
  then show ?case
    by (fastforce split: option.splits dest: escape_shorter)
qed

text \<open>
  \<^verbatim>\<open>decodeURIComponent\<close>: a character other than \<^verbatim>\<open>%\<close> stands for itself; an escape
  below \<open>0x80\<close> is that character; an escape that leads a UTF-8 sequence of two, three or
  four bytes must be followed by the escapes of the other bytes, and the sequence must
  be the encoding of a code point. Anything else is a \<^verbatim>\<open>URIError\<close>.
\<close>

function decodeURIComponent :: "jsstring \<Rightarrow> thrown + jsstring" where
  "decodeURIComponent [] = Inr []"
| "decodeURIComponent (c # cs) =
     (if c \<noteq> 37 then
        (case decodeURIComponent cs of Inl e \<Rightarrow> Inl e | Inr r \<Rightarrow> Inr (c # r))
      else
        (case escape (c # cs) of
           None \<Rightarrow> Inl URIError
         | Some (b, rest) \<Rightarrow>
             if b < 0x80 then
               (case decodeURIComponent rest of Inl e \<Rightarrow> Inl e | Inr r \<Rightarrow> Inr (b # r))
             else if b < 0xC0 \<or> 0xF8 \<le> b then Inl URIError
             else
               (case escapes (if b < 0xE0 then 1 else if b < 0xF0 then 2 else 3) rest of
                  None \<Rightarrow> Inl URIError
                | Some (following, rest') \<Rightarrow>
                    (case utf8_sequence (b # following) of
                       None \<Rightarrow> Inl URIError
                     | Some cp \<Rightarrow>
                         (case decodeURIComponent rest' of
                            Inl e \<Rightarrow> Inl e
                          | Inr r \<Rightarrow> Inr (utf16_units cp @ r))))))"
  by pat_completeness auto
termination
proof (relation "measure length")
  show "wf (measure length)"
    by simp
next
  fix c :: nat and cs :: jsstring
  show "(cs, c # cs) \<in> measure length"
    by simp
next
  fix c cs x2 b rest
  assume "escape (c # cs) = Some x2" "(b, rest) = x2"
  then show "(rest, c # cs) \<in> measure length"
    using escape_shorter [of "c # cs" b rest] by simp
next
  fix c cs x2 b rest x2a following rest' x2b
  assume "escape (c # cs) = Some x2" "(b, rest) = x2"
    "escapes (if b < 0xE0 then 1 else if b < 0xF0 then 2 else 3) rest = Some x2a"
    "(following, rest') = x2a"
  then show "(rest', c # cs) \<in> measure length"
    using escape_shorter [of "c # cs" b rest]
      escapes_not_longer [of "if b < 0xE0 then 1 else if b < 0xF0 then 2 else 3" rest following rest']
    by simp
qed

declare decodeURIComponent.simps [simp del]

section \<open>URL encode and decode: \<^verbatim>\<open>urlEncode\<close>, \<^verbatim>\<open>urlDecode\<close>\<close>

definition urlEncode :: "jsstring \<Rightarrow> thrown + jsstring" where
  "urlEncode text = encodeURIComponent text"

definition urlDecode :: "jsstring \<Rightarrow> thrown + jsstring" where
  "urlDecode encoded = decodeURIComponent encoded"

section \<open>Text compare: proofs\<close>

lemma or_empty_element: "or_empty (element ls i) = side ls i"
  by (simp add: or_empty_def element_def side_def)

lemma diff_loop_unfold:
  "diff_loop ls1 ls2 m i acc =
     (if i < m then
        diff_loop ls1 ls2 m (i + 1)
          (if side ls1 i \<noteq> side ls2 i then acc @ [spec_record ls1 ls2 i] else acc)
      else acc)"
proof -
  have kind: "(if side ls1 i \<noteq> [] \<and> side ls2 i \<noteq> [] then ''modified''
               else if side ls1 i \<noteq> [] then ''removed'' else ''added'') =
              spec_type (side ls1 i) (side ls2 i)"
    if "side ls1 i \<noteq> side ls2 i"
    using that by (cases "side ls1 i = []"; cases "side ls2 i = []") (simp_all add: spec_type_def)
  show ?thesis
  proof (cases "side ls1 i = side ls2 i")
    case True
    then show ?thesis
      by (subst diff_loop.simps) (simp add: or_empty_element Let_def)
  next
    case False
    then show ?thesis
      by (subst diff_loop.simps) (simp add: or_empty_element Let_def spec_record_def kind)
  qed
qed

lemma diff_loop_spec:
  "diff_loop ls1 ls2 m i acc =
     acc @ map (spec_record ls1 ls2) (filter (\<lambda>k. side ls1 k \<noteq> side ls2 k) [i..<m])"
proof (induction "m - i" arbitrary: i acc)
  case 0
  then show ?case by (subst diff_loop_unfold) simp
next
  case (Suc n)
  then have less: "i < m" and rest: "n = m - (i + 1)"
    by simp_all
  have step: "[i..<m] = i # [i + 1..<m]"
    using less by (simp add: upt_conv_Cons)
  have IH: "diff_loop ls1 ls2 m (Suc i) acc' =
      acc' @ map (spec_record ls1 ls2)
        (filter (\<lambda>k. side ls1 k \<noteq> side ls2 k) [Suc i..<m])" for acc'
    using Suc.hyps(1) [OF rest, of acc'] by simp
  show ?case
    by (subst diff_loop_unfold) (simp add: less step IH)
qed

text \<open>
  C6. For all texts, \<^verbatim>\<open>findDifferences\<close> returns exactly one record per 1-based line
  index up to the larger line count at which the two newline-split inputs differ (a side
  past its end counting as the empty string), in increasing order and none for equal lines;
  the record holds the two sides and is "modified" when both are non-empty, "removed" when
  only the left is, "added" when only the right is. In particular comparing "a\nb" with
  "a\nc" gives the single record (2, "b", "c", modified), and comparing "a" with "a\nb"
  gives (2, "", "b", added).
\<close>

theorem findDifferences_spec:
  "findDifferences text1 text2 = spec_differences text1 text2
   \<and> findDifferences (str ''a\<newline>b'') (str ''a\<newline>c'') =
       [\<lparr>line = 2, left = str ''b'', right = str ''c'', type = ''modified''\<rparr>]
   \<and> findDifferences (str ''a'') (str ''a\<newline>b'') =
       [\<lparr>line = 2, left = str '''', right = str ''b'', type = ''added''\<rparr>]"
proof -
  have general: "\<And>t1 t2. findDifferences t1 t2 = spec_differences t1 t2"
    by (simp add: findDifferences_def spec_differences_def diff_loop_spec Let_def)
  have ex1: "spec_differences (str ''a\<newline>b'') (str ''a\<newline>c'') =
       [\<lparr>line = 2, left = str ''b'', right = str ''c'', type = ''modified''\<rparr>]"
    by (simp add: spec_differences_def spec_record_def spec_type_def side_def str_def
        upt_rec [of 0] upt_rec [of 1] upt_rec [of 2])
  have ex2: "spec_differences (str ''a'') (str ''a\<newline>b'') =
       [\<lparr>line = 2, left = str '''', right = str ''b'', type = ''added''\<rparr>]"
    by (simp add: spec_differences_def spec_record_def spec_type_def side_def str_def
        upt_rec [of 0] upt_rec [of 1] upt_rec [of 2])
  show ?thesis
    by (simp only: general ex1 ex2)
qed

section \<open>Credit-card validation: proofs\<close>

lemma luhn_step:
  assumes "k < length cleaned" and "is_digit (cleaned ! (length cleaned - 1 - k))"
  shows "luhn_loop cleaned (int (length cleaned) - 1 - int k) (Some s) (odd k) =
         luhn_loop cleaned (int (length cleaned) - 1 - int (Suc k))
           (Some (s + luhn_term k (digit_value (cleaned ! (length cleaned - 1 - k))))) (odd (Suc k))"
proof -
  have idx: "nat (int (length cleaned) - 1 - int k) = length cleaned - 1 - k"
    using assms(1) by simp
  have ch: "charAt cleaned (int (length cleaned) - 1 - int k) = [cleaned ! (length cleaned - 1 - k)]"
    using assms(1) by (simp add: charAt_def idx)
  have next_i: "int (length cleaned) - 1 - int k - 1 = int (length cleaned) - 1 - int (Suc k)"
    by simp
  show ?thesis
    using assms
    by (subst luhn_loop.simps)
       (simp add: ch parseInt_def Let_def times2_def minus9_if_above9_def js_plus_def
          luhn_term_def digit_value_def next_i mult.commute del: of_nat_Suc)
qed

lemma luhn_loop_sum:
  assumes "\<forall>c \<in> set cleaned. is_digit c" and "k \<le> length cleaned"
  shows "luhn_loop cleaned (int (length cleaned) - 1 - int k) (Some s) (odd k) =
         Some (s + (\<Sum>j = k..<length cleaned.
                      luhn_term j (digit_value (cleaned ! (length cleaned - 1 - j)))))"
  using assms(2)
proof (induction "length cleaned - k" arbitrary: k s)
  case 0
  then have "k = length cleaned" by simp
  then show ?case by (subst luhn_loop.simps) simp
next
  case (Suc n)
  then have less: "k < length cleaned" and rest: "n = length cleaned - Suc k"
    by simp_all
  have dig: "is_digit (cleaned ! (length cleaned - 1 - k))"
    using assms(1) less by simp
  show ?case
    using Suc.hyps(1) [OF rest] less
    by (simp add: luhn_step [OF less dig] sum.atLeast_Suc_lessThan ac_simps del: of_nat_Suc)
qed

lemma luhn_loop_checksum:
  "luhn_loop (filter is_digit number) (int (length (filter is_digit number)) - 1) (Some 0) False =
     Some (luhn_checksum (map digit_value (filter is_digit number)))"
proof -
  let ?c = "filter is_digit number"
  have "luhn_loop ?c (int (length ?c) - 1 - int 0) (Some 0) (odd (0::nat)) =
        Some (0 + (\<Sum>j = 0..<length ?c. luhn_term j (digit_value (?c ! (length ?c - 1 - j)))))"
    by (rule luhn_loop_sum) simp_all
  moreover have "(\<Sum>j = 0..<length ?c. luhn_term j (digit_value (?c ! (length ?c - 1 - j)))) =
        luhn_checksum (map digit_value ?c)"
    unfolding luhn_checksum_def
    by (rule sum.cong) (auto simp: rev_nth rev_map lessThan_atLeast0)
  ultimately show ?thesis by simp
qed

lemma getCardType_leading: "getCardType number = getCardType (take 4 number)"
proof -
  have m: "(case take 4 number of c0 # c1 # _ \<Rightarrow> c0 = 53 \<and> 49 \<le> c1 \<and> c1 \<le> 53 | _ \<Rightarrow> False) =
           (case number of c0 # c1 # _ \<Rightarrow> c0 = 53 \<and> 49 \<le> c1 \<and> c1 \<le> (53::nat) | _ \<Rightarrow> False)"
    by (cases number; cases "tl number") (simp_all add: numeral_eq_Suc)
  show ?thesis
    by (simp add: getCardType_def starts_with_def str_def m)
qed

lemma leading_head: "leading ds (x # p) \<Longrightarrow> take 1 ds = [x]"
  by (cases ds) (simp_all add: leading_def)

lemma starts_with_digits:
  assumes "list_all is_digit cs" and "list_all is_digit p"
  shows "starts_with cs p = leading (map digit_value cs) (map digit_value p)"
proof -
  have d: "48 \<le> c" if "c \<in> set (take (length p) cs) \<union> set p" for c
    using that assms by (auto simp: list_all_iff is_digit_def dest!: in_set_takeD)
  have inj: "inj_on digit_value (set (take (length p) cs) \<union> set p)"
    unfolding inj_on_def digit_value_def
  proof (intro ballI impI)
    fix x y
    assume "x \<in> set (take (length p) cs) \<union> set p" "y \<in> set (take (length p) cs) \<union> set p"
      and "x - 48 = y - 48"
    with d [of x] d [of y] show "x = y"
      by linarith
  qed
  show ?thesis
    by (simp add: starts_with_def leading_def take_map inj_on_map_eq_map [OF inj])
qed

lemma mastercard_digits:
  assumes "list_all is_digit cs"
  shows "(case cs of c0 # c1 # _ \<Rightarrow> c0 = 53 \<and> 49 \<le> c1 \<and> c1 \<le> 53 | _ \<Rightarrow> False) =
         (leading (map digit_value cs) [5, 1] \<or> leading (map digit_value cs) [5, 2] \<or>
          leading (map digit_value cs) [5, 3] \<or> leading (map digit_value cs) [5, 4] \<or>
          leading (map digit_value cs) [5, 5])"
proof (cases cs)
  case Nil
  then show ?thesis by (simp add: leading_def)
next
  case (Cons c0 rest)
  show ?thesis
  proof (cases rest)
    case Nil
    then show ?thesis by (simp add: Cons leading_def)
  next
    case (Cons c1 rest')
    have "48 \<le> c0" "48 \<le> c1"
      using assms \<open>cs = c0 # rest\<close> Cons by (simp_all add: is_digit_def)
    then show ?thesis
      unfolding \<open>cs = c0 # rest\<close> Cons
      by (simp add: leading_def digit_value_def) linarith
  qed
qed

lemma getCardType_digits:
  assumes "list_all is_digit cs"
  shows "getCardType cs =
     (if leading (map digit_value cs) [4] then ''visa''
      else if leading (map digit_value cs) [5, 1] \<or> leading (map digit_value cs) [5, 2] \<or>
              leading (map digit_value cs) [5, 3] \<or> leading (map digit_value cs) [5, 4] \<or>
              leading (map digit_value cs) [5, 5] then ''mastercard''
      else if leading (map digit_value cs) [3, 4] \<or> leading (map digit_value cs) [3, 7]
        then ''amex''
      else if leading (map digit_value cs) [6, 0, 1, 1] \<or> leading (map digit_value cs) [6, 5]
        then ''discover''
      else ''unknown'')"
proof -
  have visa: "starts_with cs (str ''4'') = leading (map digit_value cs) [4]"
    using starts_with_digits [OF assms, of "str ''4''"]
    by (simp add: str_def is_digit_def digit_value_def)
  have amex: "starts_with cs (str ''34'') = leading (map digit_value cs) [3, 4]"
    "starts_with cs (str ''37'') = leading (map digit_value cs) [3, 7]"
    using starts_with_digits [OF assms, of "str ''34''"] starts_with_digits [OF assms, of "str ''37''"]
    by (simp_all add: str_def is_digit_def digit_value_def)
  have discover: "starts_with cs (str ''6011'') = leading (map digit_value cs) [6, 0, 1, 1]"
    "starts_with cs (str ''65'') = leading (map digit_value cs) [6, 5]"
    using starts_with_digits [OF assms, of "str ''6011''"] starts_with_digits [OF assms, of "str ''65''"]
    by (simp_all add: str_def is_digit_def digit_value_def)
  show ?thesis
    unfolding getCardType_def visa amex discover mastercard_digits [OF assms] ..
qed

text \<open>
  C8. \<^verbatim>\<open>creditCardValidator\<close> strips every character that is not a decimal digit;
  \<open>valid\<close> is true exactly when the Luhn checksum of the remaining digits is 0 modulo 10;
  \<open>type\<close> is decided by the leading digits alone (at most the first four of them): it
  is "visa" exactly when the digits start with 4, "mastercard" exactly when they start
  with 51 to 55, "amex" exactly when they start with 34 or 37, "discover" exactly when they
  start with 6011 or 65, and "unknown" exactly when they start with none of these. In
  particular "4539148803436467" is valid, "4539148803436468" is not, and "4111111111111111"
  is classified as visa.
\<close>

theorem creditCardValidator_luhn:
  "valid (creditCardValidator number) =
     (luhn_checksum (map digit_value (filter is_digit number)) mod 10 = 0)
   \<and> validation.type (creditCardValidator number) = getCardType (take 4 (filter is_digit number))
   \<and> valid (creditCardValidator (str ''4539148803436467'')) = True
   \<and> valid (creditCardValidator (str ''4539148803436468'')) = False
   \<and> validation.type (creditCardValidator (str ''4111111111111111'')) = ''visa''
   \<and> (validation.type (creditCardValidator number) = ''visa'') =
       leading (map digit_value (filter is_digit number)) [4]
   \<and> (validation.type (creditCardValidator number) = ''mastercard'') =
       (leading (map digit_value (filter is_digit number)) [5, 1] \<or>
        leading (map digit_value (filter is_digit number)) [5, 2] \<or>
        leading (map digit_value (filter is_digit number)) [5, 3] \<or>
        leading (map digit_value (filter is_digit number)) [5, 4] \<or>
        leading (map digit_value (filter is_digit number)) [5, 5])
   \<and> (validation.type (creditCardValidator number) = ''amex'') =
       (leading (map digit_value (filter is_digit number)) [3, 4] \<or>
        leading (map digit_value (filter is_digit number)) [3, 7])
   \<and> (validation.type (creditCardValidator number) = ''discover'') =
       (leading (map digit_value (filter is_digit number)) [6, 0, 1, 1] \<or>
        leading (map digit_value (filter is_digit number)) [6, 5])
   \<and> (validation.type (creditCardValidator number) = ''unknown'') =
       (\<not> (leading (map digit_value (filter is_digit number)) [4] \<or>
           leading (map digit_value (filter is_digit number)) [5, 1] \<or>
           leading (map digit_value (filter is_digit number)) [5, 2] \<or>
           leading (map digit_value (filter is_digit number)) [5, 3] \<or>
           leading (map digit_value (filter is_digit number)) [5, 4] \<or>
           leading (map digit_value (filter is_digit number)) [5, 5] \<or>
           leading (map digit_value (filter is_digit number)) [3, 4] \<or>
           leading (map digit_value (filter is_digit number)) [3, 7] \<or>
           leading (map digit_value (filter is_digit number)) [6, 0, 1, 1] \<or>
           leading (map digit_value (filter is_digit number)) [6, 5]))
   \<and> validation.type (creditCardValidator (str ''5500 0000 0000 0004'')) = ''mastercard''
   \<and> validation.type (creditCardValidator (str ''340000000000009'')) = ''amex''
   \<and> validation.type (creditCardValidator (str ''6011000000000004'')) = ''discover''
   \<and> validation.type (creditCardValidator (str ''1234'')) = ''unknown''"
proof -
  let ?ds = "map digit_value (filter is_digit number)"
  have general: "valid (creditCardValidator number) = (luhn_checksum ?ds mod 10 = 0)"
    by (simp add: creditCardValidator_def Let_def luhn_loop_checksum)
  have kind: "validation.type (creditCardValidator number) =
      getCardType (take 4 (filter is_digit number))"
    using getCardType_leading [of "filter is_digit number"]
    by (simp add: creditCardValidator_def Let_def)
  have ex1: "valid (creditCardValidator (str ''4539148803436467'')) = True"
    by (simp add: creditCardValidator_def Let_def str_def is_digit_def luhn_loop.simps
        charAt_def parseInt_def times2_def minus9_if_above9_def js_plus_def)
  have ex2: "valid (creditCardValidator (str ''4539148803436468'')) = False"
    by (simp add: creditCardValidator_def Let_def str_def is_digit_def luhn_loop.simps
        charAt_def parseInt_def times2_def minus9_if_above9_def js_plus_def)
  have ex3: "validation.type (creditCardValidator (str ''4111111111111111'')) = ''visa''"
    by (simp add: creditCardValidator_def Let_def str_def is_digit_def getCardType_def
        starts_with_def)
  have digits: "list_all is_digit (filter is_digit number)"
    by (simp add: list_all_iff)
  have ty: "validation.type (creditCardValidator number) =
     (if leading ?ds [4] then ''visa''
      else if leading ?ds [5, 1] \<or> leading ?ds [5, 2] \<or> leading ?ds [5, 3] \<or>
              leading ?ds [5, 4] \<or> leading ?ds [5, 5] then ''mastercard''
      else if leading ?ds [3, 4] \<or> leading ?ds [3, 7] then ''amex''
      else if leading ?ds [6, 0, 1, 1] \<or> leading ?ds [6, 5] then ''discover''
      else ''unknown'')"
    using getCardType_digits [OF digits] by (simp add: creditCardValidator_def Let_def)
  define V M A D where "V = leading ?ds [4]"
    and "M = (leading ?ds [5, 1] \<or> leading ?ds [5, 2] \<or> leading ?ds [5, 3] \<or>
              leading ?ds [5, 4] \<or> leading ?ds [5, 5])"
    and "A = (leading ?ds [3, 4] \<or> leading ?ds [3, 7])"
    and "D = (leading ?ds [6, 0, 1, 1] \<or> leading ?ds [6, 5])"
  have first: "V \<Longrightarrow> take 1 ?ds = [4]" "M \<Longrightarrow> take 1 ?ds = [5]"
    "A \<Longrightarrow> take 1 ?ds = [3]" "D \<Longrightarrow> take 1 ?ds = [6]"
    unfolding V_def M_def A_def D_def by (blast dest: leading_head)+
  have excl: "\<not> (V \<and> M)" "\<not> (V \<and> A)" "\<not> (V \<and> D)" "\<not> (M \<and> A)" "\<not> (M \<and> D)" "\<not> (A \<and> D)"
    using first by fastforce+
  have ty': "validation.type (creditCardValidator number) =
     (if V then ''visa'' else if M then ''mastercard'' else if A then ''amex''
      else if D then ''discover'' else ''unknown'')"
    unfolding V_def M_def A_def D_def by (rule ty)
  have visa': "(validation.type (creditCardValidator number) = ''visa'') = V"
    and mastercard': "(validation.type (creditCardValidator number) = ''mastercard'') = M"
    and amex': "(validation.type (creditCardValidator number) = ''amex'') = A"
    and discover': "(validation.type (creditCardValidator number) = ''discover'') = D"
    and unknown': "(validation.type (creditCardValidator number) = ''unknown'') =
      (\<not> (V \<or> M \<or> A \<or> D))"
    unfolding ty' using excl by auto
  have visa: "(validation.type (creditCardValidator number) = ''visa'') = leading ?ds [4]"
    using visa' unfolding V_def .
  have mastercard: "(validation.type (creditCardValidator number) = ''mastercard'') =
       (leading ?ds [5, 1] \<or> leading ?ds [5, 2] \<or> leading ?ds [5, 3] \<or> leading ?ds [5, 4] \<or>
        leading ?ds [5, 5])"
    using mastercard' unfolding M_def .
  have amex: "(validation.type (creditCardValidator number) = ''amex'') =
       (leading ?ds [3, 4] \<or> leading ?ds [3, 7])"
    using amex' unfolding A_def .
  have discover: "(validation.type (creditCardValidator number) = ''discover'') =
       (leading ?ds [6, 0, 1, 1] \<or> leading ?ds [6, 5])"
    using discover' unfolding D_def .
  have unknown: "(validation.type (creditCardValidator number) = ''unknown'') =
       (\<not> (leading ?ds [4] \<or> leading ?ds [5, 1] \<or> leading ?ds [5, 2] \<or> leading ?ds [5, 3] \<or>
           leading ?ds [5, 4] \<or> leading ?ds [5, 5] \<or> leading ?ds [3, 4] \<or> leading ?ds [3, 7] \<or>
           leading ?ds [6, 0, 1, 1] \<or> leading ?ds [6, 5]))"
    using unknown' unfolding V_def M_def A_def D_def by (simp only: disj_assoc)
  have ex4: "validation.type (creditCardValidator (str ''5500 0000 0000 0004'')) = ''mastercard''"
    and ex5: "validation.type (creditCardValidator (str ''340000000000009'')) = ''amex''"
    and ex6: "validation.type (creditCardValidator (str ''6011000000000004'')) = ''discover''"
    and ex7: "validation.type (creditCardValidator (str ''1234'')) = ''unknown''"
    by (simp_all add: creditCardValidator_def Let_def str_def is_digit_def getCardType_def
        starts_with_def)
  show ?thesis
    using general kind ex1 ex2 ex3 visa mastercard amex discover unknown ex4 ex5 ex6 ex7
    by (intro conjI)
qed

section \<open>CSV to JSON: proofs\<close>

lemma columns_named_Cons:
  "columns_named (h # hs) k = (if h = k then [0] else []) @ map Suc (columns_named hs k)"
proof -
  have "[0..<length (h # hs)] = 0 # map Suc [0..<length hs]"
    by (simp add: upt_conv_Cons map_Suc_upt del: upt_Suc)
  then show ?thesis
    by (simp add: columns_named_def filter_map comp_def del: upt_Suc)
qed

lemma columns_named_empty: "columns_named hs k = [] \<longleftrightarrow> k \<notin> set hs"
  by (auto simp: columns_named_def filter_empty_conv in_set_conv_nth)

lemma forEach_header_spec:
  "forEach_header hs i values obj k =
     (if k \<in> set hs \<and> k \<noteq> str ''__proto__''
      then Some (side values (i + last (columns_named hs k)))
      else obj k)"
proof (induction hs arbitrary: i obj)
  case Nil
  then show ?case by simp
next
  case (Cons h hs)
  show ?case
  proof (cases "k \<in> set hs")
    case True
    then have ne: "columns_named hs k \<noteq> []"
      by (simp add: columns_named_empty)
    then have "last (columns_named (h # hs) k) = Suc (last (columns_named hs k))"
      by (simp add: columns_named_Cons last_map)
    with True show ?thesis
      by (auto simp: Cons.IH set_property_def)
  next
    case False
    then have "columns_named hs k = []"
      by (simp add: columns_named_empty)
    then have "h = k \<Longrightarrow> last (columns_named (h # hs) k) = 0"
      by (simp add: columns_named_Cons)
    with False show ?thesis
      by (auto simp: Cons.IH set_property_def or_empty_element)
  qed
qed

lemma row_object_spec:
  "str ''__proto__'' \<notin> set headers \<Longrightarrow>
     forEach_header headers 0 values Map.empty = spec_row headers values"
  by (rule ext) (auto simp: forEach_header_spec spec_row_def)

lemma csv_loop_rows:
  "csv_loop lines headers i result =
     result @ map (\<lambda>l. forEach_header headers 0 (cells l) Map.empty) (drop i lines)"
proof (induction "length lines - i" arbitrary: i result)
  case 0
  then show ?case by (subst csv_loop.simps) simp
next
  case (Suc n)
  then have less: "i < length lines" and rest: "n = length lines - (i + 1)"
    by simp_all
  have step: "drop i lines = lines ! i # drop (i + 1) lines"
    using less by (simp add: Cons_nth_drop_Suc)
  have IH: "csv_loop lines headers (Suc i) result' =
      result' @ map (\<lambda>l. forEach_header headers 0 (cells l) Map.empty) (drop (Suc i) lines)"
    for result'
    using Suc.hyps(1) [OF rest, of result'] by simp
  show ?case
    by (subst csv_loop.simps) (simp add: less step Let_def IH)
qed

lemma csvToJson_rows:
  "csvToJson csvString =
     (case filter (\<lambda>l. trim l \<noteq> []) (split 10 csvString) of
        [] \<Rightarrow> []
      | h # rows \<Rightarrow> map (\<lambda>r. forEach_header (cells h) 0 (cells r) Map.empty) rows)"
  by (simp add: csvToJson_def Let_def csv_loop_rows split: list.split)

lemma csvToJson_blank:
  "\<forall>l \<in> set (split 10 csvString). trim l = [] \<Longrightarrow> csvToJson csvString = []"
  by (simp add: csvToJson_def Let_def filter_empty_conv [THEN iffD2])

lemma csvToJson_example:
  "csvToJson (str ''a,b\<newline>1,2\<newline>3'') =
     [[str ''a'' \<mapsto> str ''1'', str ''b'' \<mapsto> str ''2''],
      [str ''a'' \<mapsto> str ''3'', str ''b'' \<mapsto> str '''']]"
  by (simp add: csvToJson_def Let_def str_def trim_def is_whitespace_def cells_def
      csv_loop.simps set_property_def or_empty_def element_def)

text \<open>
  C7. The claim: the rows of \<^verbatim>\<open>csvToJson\<close> are keyed by the column names of the
  header line, a short row padded with empty strings, and an input without a non-blank line
  gives no rows. The rows are the data lines in order (\<open>csvToJson_rows\<close>), every column
  name other than \<^verbatim>\<open>__proto__\<close> is a key with the field of its column or the empty
  string (\<open>forEach_header_spec\<close>, \<open>row_object_spec\<close>), the example of the
  specification holds (\<open>csvToJson_example\<close>) and blank input gives no rows
  (\<open>csvToJson_blank\<close>). A column named \<^verbatim>\<open>__proto__\<close> however is lost: for the
  input "__proto__,b\n1,2" the only row has the key "b" alone, and the field "1" of the
  first column is nowhere in the result.
\<close>

theorem csvToJson_proto_column:
  "csvToJson (str ''__proto__,b\<newline>1,2'') = [[str ''b'' \<mapsto> str ''2'']]
   \<and> cells (str ''__proto__,b'') = [str ''__proto__'', str ''b'']
   \<and> dom (hd (csvToJson (str ''__proto__,b\<newline>1,2''))) = {str ''b''}"
proof -
  have rows: "csvToJson (str ''__proto__,b\<newline>1,2'') = [[str ''b'' \<mapsto> str ''2'']]"
    by (simp add: csvToJson_def Let_def str_def trim_def is_whitespace_def cells_def
        csv_loop.simps set_property_def or_empty_def element_def)
  have header: "cells (str ''__proto__,b'') = [str ''__proto__'', str ''b'']"
    by (simp add: str_def trim_def is_whitespace_def cells_def)
  show ?thesis
    by (simp add: rows header)
qed

section \<open>The visitor counter store: proofs\<close>

lemma fresh_data_counters:
  "fresh_data now (str ''total'') = Some (Num 0)"
  "fresh_data now (str ''web'') = Some (Num 0)"
  by (simp_all add: fresh_data_def str_def)

lemma getVisitorStats_own:
  "getVisitorStats now1 True vf key = Some (Num k) \<Longrightarrow> key = str ''total'' \<or> key = str ''web'' \<Longrightarrow>
   (case vf of None \<Rightarrow> fresh_data now | Some d \<Rightarrow> d) key = Some (Num k)"
  by (cases vf) (auto simp: getVisitorStats_def fresh_data_counters)

lemma incremented_counter: "k < 2 ^ 53 \<Longrightarrow> incremented (Some (Num k)) = Num (k + 1)"
  by (simp add: incremented_def)

lemma incremented_not_NaN: "incremented (Some (Num k)) \<noteq> NaN"
  by (simp add: incremented_def)

lemma track_total:
  assumes "type' \<noteq> str ''total''"
    and "getVisitorStats now1 True vf (str ''total'') = Some (Num k)"
  shows "getVisitorStats now2 True (snd (trackVisitor type' now True vf)) (str ''total'') =
         Some (incremented (Some (Num k)))"
proof -
  have ne: "str ''total'' \<noteq> str ''lastUpdated''" "str ''total'' \<noteq> str ''__proto__''"
    by (simp_all add: str_def)
  have own: "(case vf of None \<Rightarrow> fresh_data now | Some d \<Rightarrow> d) (str ''total'') = Some (Num k)"
    using getVisitorStats_own [OF assms(2)] by simp
  show ?thesis
    using assms(1) ne own
    by (simp add: trackVisitor_def Let_def getVisitorStats_def through_json_def
        put_property_def get_property_def incremented_not_NaN)
qed

lemma track_web:
  assumes "getVisitorStats now1 True vf (str ''total'') = Some (Num k)"
    and "getVisitorStats now1 True vf (str ''web'') = Some (Num k)"
  shows "getVisitorStats now2 True (snd (trackVisitor (str ''web'') now True vf)) (str ''web'') =
         Some (incremented (Some (Num k)))"
proof -
  have ne: "str ''web'' \<noteq> str ''lastUpdated''" "str ''web'' \<noteq> str ''__proto__''"
    "str ''web'' \<noteq> str ''total''"
    by (simp_all add: str_def)
  have own: "(case vf of None \<Rightarrow> fresh_data now | Some d \<Rightarrow> d) (str ''web'') = Some (Num k)"
    using getVisitorStats_own [OF assms(2)] by simp
  show ?thesis
    using ne own
    by (simp add: trackVisitor_def Let_def getVisitorStats_def through_json_def
        put_property_def get_property_def incremented_not_NaN)
qed

lemma track_calls_total:
  assumes "\<forall>(supplied, now) \<in> set calls. track_type supplied \<noteq> str ''total''"
    and "getVisitorStats now1 True vf (str ''total'') = Some (Num k)"
    and "k + length calls \<le> 2 ^ 53"
  shows "getVisitorStats now2 True (track_calls calls vf) (str ''total'') =
         Some (Num (k + length calls))"
  using assms
proof (induction calls arbitrary: vf k now1)
  case Nil
  then show ?case
    by (cases vf) (simp_all add: getVisitorStats_def fresh_data_counters)
next
  case (Cons call calls)
  obtain supplied now where call: "call = (supplied, now)"
    by (cases call)
  have k: "k < 2 ^ 53"
    using Cons.prems(3) by simp
  have "getVisitorStats now1 True (snd (trackVisitor (track_type supplied) now True vf)) (str ''total'') =
        Some (Num (k + 1))"
    using track_total [of "track_type supplied" now1 vf k now1 now] Cons.prems(1,2) k call
    by (simp add: incremented_counter)
  then have "getVisitorStats now2 True (track_calls calls (snd (trackVisitor (track_type supplied) now True vf)))
        (str ''total'') = Some (Num (k + 1 + length calls))"
    using Cons.prems(1,3) by (intro Cons.IH) simp_all
  then show ?case
    by (simp add: call)
qed

lemma track_calls_web:
  assumes "\<forall>(supplied, now) \<in> set calls. supplied = None"
    and "getVisitorStats now1 True vf (str ''total'') = Some (Num k)"
    and "getVisitorStats now1 True vf (str ''web'') = Some (Num k)"
    and "k + length calls \<le> 2 ^ 53"
  shows "getVisitorStats now2 True (track_calls calls vf) (str ''total'') = Some (Num (k + length calls))
       \<and> getVisitorStats now2 True (track_calls calls vf) (str ''web'') = Some (Num (k + length calls))"
  using assms
proof (induction calls arbitrary: vf k now1)
  case Nil
  then show ?case
    by (cases vf) (simp_all add: getVisitorStats_def fresh_data_counters)
next
  case (Cons call calls)
  obtain now where call: "call = (None, now)"
    using Cons.prems(1) by (cases call) simp
  have k: "k < 2 ^ 53"
    using Cons.prems(4) by simp
  let ?after = "snd (trackVisitor (str ''web'') now True vf)"
  have ne: "str ''web'' \<noteq> str ''total''"
    by (simp add: str_def)
  have t: "getVisitorStats now1 True ?after (str ''total'') = Some (Num (k + 1))"
    using track_total [OF ne Cons.prems(2), of now1 now] k by (simp add: incremented_counter)
  have w: "getVisitorStats now1 True ?after (str ''web'') = Some (Num (k + 1))"
    using track_web [OF Cons.prems(2,3), of now1 now] k by (simp add: incremented_counter)
  have "getVisitorStats now2 True (track_calls calls ?after) (str ''total'') = Some (Num (k + 1 + length calls))
      \<and> getVisitorStats now2 True (track_calls calls ?after) (str ''web'') = Some (Num (k + 1 + length calls))"
    using Cons.prems(1,4) t w by (intro Cons.IH) simp_all
  then show ?case
    by (simp add: call track_type_def)
qed

lemma track_calls_web_from_absent:
  assumes "\<forall>(supplied, now) \<in> set calls. supplied = None" and "length calls \<le> 2 ^ 53"
  shows "getVisitorStats now' True (track_calls calls None) (str ''total'') = Some (Num (length calls))
       \<and> getVisitorStats now' True (track_calls calls None) (str ''web'') = Some (Num (length calls))"
  using track_calls_web [of calls now' None 0 now'] assms
  by (simp add: getVisitorStats_def fresh_data_counters)

text \<open>
  C3. The claim: starting from an absent visitor file, after N tracking calls without a
  type the stored record has \<open>total = N\<close> and \<open>web = N\<close>, and every tracking call adds
  exactly 1 to \<open>total\<close> whatever type is supplied. The first half holds for every N up to
  \<open>2^53\<close> (\<open>track_calls_web_from_absent\<close>), and so does the second for every type other
  than "total" (\<open>track_calls_total\<close>). With the type "total" the key of the type is the
  total itself: \<^verbatim>\<open>data.total++\<close> and then \<^verbatim>\<open>data[type]++\<close> both add to it, and one call
  on an absent file leaves \<open>total = 2\<close>, in the record returned and in the file.
\<close>

theorem trackVisitor_type_total:
  "fst (trackVisitor (str ''total'') now True None) (str ''total'') = Some (Num 2)
   \<and> getVisitorStats now' True (track_calls [(Some (str ''total''), now)] None) (str ''total'') =
       Some (Num 2)"
  by (simp add: trackVisitor_def Let_def fresh_data_def put_property_def get_property_def
      incremented_def str_def track_type_def through_json_def getVisitorStats_def)

section \<open>The request router: proofs\<close>

lemma str_eq_iff: "str a = str b \<longleftrightarrow> a = b"
  by (simp add: str_def inj_map_eq_map inj_on_def)

lemma require_falsy:
  "field \<in> set fs \<Longrightarrow> get_field payload field = Inr v \<Longrightarrow> \<not> truthy v \<Longrightarrow>
     require payload fs message rest = Inl (Error message)"
proof (induction fs)
  case Nil
  then show ?case by simp
next
  case (Cons f fs)
  have readable: "\<exists>w. get_field payload f = Inr w"
    using Cons.prems(2) by (cases payload) (simp_all add: get_field_def)
  then obtain w where w: "get_field payload f = Inr w" ..
  show ?case
  proof (cases "truthy w")
    case False
    then show ?thesis by (simp add: w)
  next
    case True
    then have "field \<noteq> f"
      using Cons.prems(2,3) w by auto
    then show ?thesis
      using Cons True w by simp
  qed
qed

lemma required_paths:
  "(path, fs, message) \<in> set required_fields \<Longrightarrow>
     starts_with (str path) (str ''api/'') \<and> path \<noteq> ''api/health'' \<and>
     path \<noteq> ''api/visitors/stats'' \<and> path \<noteq> ''api/visitors/track''"
  by (auto simp: required_fields_def starts_with_def str_def)

lemma handle_request_api_post:
  assumes "starts_with (trim_slashes path) (str ''api/'')"
    and "trim_slashes path \<noteq> str ''api/health''"
    and "trim_slashes path \<noteq> str ''api/visitors/track''"
  shows "fst (handle_request tools to_key now io_ok ''POST'' path b vf) =
         api_post tools (trim_slashes path) b"
  using assms by (simp add: handle_request_def Let_def)


lemma dispatch_unknown:
  "trimmedPath \<notin> set (map str tool_paths) \<Longrightarrow>
     dispatch tools trimmedPath payload = Inl (Error ''Endpoint not found'')"
  by (simp add: required_fields_def tool_paths_def dispatch_def Let_def)


lemma dispatch_table:
  "list_all (\<lambda>(path, fs, message).
      dispatch tools (str path) payload = require payload fs message (tools (str path) payload))
    required_fields"
  by (simp add: required_fields_def dispatch_def Let_def str_eq_iff del: require.simps)

lemma dispatch_required:
  "(path, fs, message) \<in> set required_fields \<Longrightarrow>
     dispatch tools (str path) payload = require payload fs message (tools (str path) payload)"
  using dispatch_table [of tools payload] by (simp only: list_all_iff) blast


lemma get_field_object:
  "get_field (JObj properties) field = Inr (map_of properties (str field))"
  by (simp add: get_field_def)

lemma map_of_removed: "map_of (filter (\<lambda>p. fst p \<noteq> k) properties) k = None"
  by (induction properties) auto

lemma one_field_messages:
  "list_all (\<lambda>(path, fs, message). length fs = 1 \<longrightarrow> field_is_required message) required_fields"
  by (simp add: required_fields_def field_is_required_def)

text \<open>
  C10, as amended. The validation of the router tests falsiness, not absence: for every
  tool with required fields, a body whose required field is present but is the empty
  string, 0, false or null is answered like a body without the field, with 400 and the
  validation message of the tool. The message is "<Field> is required" for the tools with
  one required field (\<open>one_field_messages\<close>), and "Text and algorithm are required",
  "Both texts are required" or "Text and case type are required" for the tools with two.
\<close>

theorem falsy_field_rejected:
  assumes "(path, fs, message) \<in> set required_fields"
    and "field \<in> set fs"
    and "trim_slashes url_path = str path"
    and "map_of properties (str field) = Some v"
    and "v = JStr [] \<or> v = JNum (Finite 0) \<or> v = JBool False \<or> v = JNull"
  shows "fst (handle_request tools to_key now io_ok ''POST'' url_path
              (WellFormed (JObj properties)) vf) = (400, Failure (Error message))
       \<and> fst (handle_request tools to_key now io_ok ''POST'' url_path
              (WellFormed (JObj (filter (\<lambda>p. fst p \<noteq> str field) properties))) vf) =
           (400, Failure (Error message))"
proof -
  have falsy: "\<not> truthy (Some v)"
    using assms(5) by (auto simp: truthy_def)
  have missing: "\<not> truthy None"
    by (simp add: truthy_def)
  have post: "fst (handle_request tools to_key now io_ok ''POST'' url_path b vf) =
      api_post tools (str path) b" for b
    using required_paths [OF assms(1)] handle_request_api_post [of url_path tools to_key now io_ok b vf]
    by (simp add: assms(3) str_eq_iff)
  have g1: "get_field (JObj properties) field = Inr (Some v)"
    by (simp add: get_field_def assms(4))
  have g2: "get_field (JObj (filter (\<lambda>p. fst p \<noteq> str field) properties)) field = Inr None"
    by (simp add: get_field_def map_of_removed)
  have present: "dispatch tools (str path) (JObj properties) = Inl (Error message)"
    using require_falsy [OF assms(2) g1 falsy]
    by (simp add: dispatch_required [OF assms(1)])
  have absent: "dispatch tools (str path) (JObj (filter (\<lambda>p. fst p \<noteq> str field) properties)) =
      Inl (Error message)"
    using require_falsy [OF assms(2) g2 missing]
    by (simp add: dispatch_required [OF assms(1)])
  show ?thesis
    by (simp add: post api_post_def payload_of_def present absent)
qed

theorem falsy_field_rejected_witness:
  "fst (handle_request echo no_key (str ''2025-01-01T00:00:00.000Z'') True ''POST''
         (str ''/api/base64/encode'') (WellFormed (JObj [(str ''text'', JStr [])])) None) =
     (400, Failure (Error ''Text is required''))
   \<and> fst (handle_request echo no_key (str ''2025-01-01T00:00:00.000Z'') True ''POST''
         (str ''/api/convert/timestamp'')
         (WellFormed (JObj [(str ''timestamp'', JNum (Finite 0))])) None) =
     (400, Failure (Error ''Timestamp is required''))"
proof -
  have t1: "(''api/base64/encode'', [''text''], ''Text is required'') \<in> set required_fields"
    and t2: "(''api/convert/timestamp'', [''timestamp''], ''Timestamp is required'') \<in> set required_fields"
    by (simp_all add: required_fields_def)
  have p1: "trim_slashes (str ''/api/base64/encode'') = str ''api/base64/encode''"
    and p2: "trim_slashes (str ''/api/convert/timestamp'') = str ''api/convert/timestamp''"
    by (simp_all add: trim_slashes_def str_def)
  have m1: "map_of [(str ''text'', JStr [])] (str ''text'') = Some (JStr [])"
    and m2: "map_of [(str ''timestamp'', JNum (Finite 0))] (str ''timestamp'') = Some (JNum (Finite 0))"
    by simp_all
  have f1: "JStr [] = JStr [] \<or> JStr [] = JNum (Finite 0) \<or> JStr [] = JBool False \<or> JStr [] = JNull"
    and f2: "JNum (Finite 0) = JStr [] \<or> JNum (Finite 0) = JNum (Finite 0) \<or>
             JNum (Finite 0) = JBool False \<or> JNum (Finite 0) = JNull"
    by simp_all
  have m: "x \<in> set [x]" for x :: string
    by simp
  show ?thesis
    using falsy_field_rejected [OF t1 m p1 m1 f1, THEN conjunct1]
      falsy_field_rejected [OF t2 m p2 m2 f2, THEN conjunct1]
    by (rule conjI)
qed

text \<open>
  C10, as stated, fails at the tools with two required fields: a \<^verbatim>\<open>POST\<close> to
  \<^verbatim>\<open>api/generate/hash\<close> whose text is the empty string is answered with 400 and "Text
  and algorithm are required", which is not of the shape "<Field> is required".
\<close>

theorem falsy_field_counterexample:
  "fst (handle_request echo no_key (str ''2025-01-01T00:00:00.000Z'') True ''POST''
         (str ''/api/generate/hash'')
         (WellFormed (JObj [(str ''text'', JStr []), (str ''algorithm'', JStr (str ''md5''))]))
         None) =
     (400, Failure (Error ''Text and algorithm are required''))
   \<and> \<not> field_is_required ''Text and algorithm are required''"
proof -
  have p: "trim_slashes (str ''/api/generate/hash'') = str ''api/generate/hash''"
    by (simp add: trim_slashes_def str_def)
  have s: "starts_with (str ''api/generate/hash'') (str ''api/'')"
    by (simp add: starts_with_def str_def)
  have answer: "fst (handle_request echo no_key (str ''2025-01-01T00:00:00.000Z'') True ''POST''
         (str ''/api/generate/hash'')
         (WellFormed (JObj [(str ''text'', JStr []), (str ''algorithm'', JStr (str ''md5''))]))
         None) =
     (400, Failure (Error ''Text and algorithm are required''))"
    by (simp add: handle_request_def Let_def p s str_eq_iff api_post_def payload_of_def
        dispatch_def get_field_def truthy_def)
  have shape: "\<not> field_is_required ''Text and algorithm are required''"
    by (simp add: field_is_required_def)
  show ?thesis
    using answer shape by (rule conjI)
qed

text \<open>
  C2, as amended. For a \<^verbatim>\<open>POST\<close> to a path under \<^verbatim>\<open>api/\<close> other than the fixed
  endpoints \<^verbatim>\<open>api/health\<close> and \<^verbatim>\<open>api/visitors/track\<close>: when the body is well-formed
  JSON, not \<^verbatim>\<open>null\<close>, and lacks a required field of the tool at that path, the answer is
  400 with the message of the tool; when the path is not the path of a tool and the body is
  empty or well-formed JSON, the answer is 400 with "Endpoint not found".
\<close>

theorem missing_field_or_unknown_tool:
  assumes "starts_with (trim_slashes url_path) (str ''api/'')"
    and "trim_slashes url_path \<noteq> str ''api/health''"
    and "trim_slashes url_path \<noteq> str ''api/visitors/track''"
  shows "((path, fs, message) \<in> set required_fields \<longrightarrow> trim_slashes url_path = str path \<longrightarrow>
          field \<in> set fs \<longrightarrow> get_field payload field = Inr None \<longrightarrow>
          fst (handle_request tools to_key now io_ok ''POST'' url_path (WellFormed payload) vf) =
            (400, Failure (Error message)))
       \<and> (trim_slashes url_path \<notin> set (map str tool_paths) \<longrightarrow> payload_of b \<noteq> None \<longrightarrow>
          fst (handle_request tools to_key now io_ok ''POST'' url_path b vf) =
            (400, Failure (Error ''Endpoint not found'')))"
proof -
  have post: "fst (handle_request tools to_key now io_ok ''POST'' url_path b' vf) =
      api_post tools (trim_slashes url_path) b'" for b'
    using assms by (rule handle_request_api_post)
  have missing: "\<not> truthy None"
    by (simp add: truthy_def)
  have first: "fst (handle_request tools to_key now io_ok ''POST'' url_path (WellFormed payload) vf) =
      (400, Failure (Error message))"
    if "(path, fs, message) \<in> set required_fields" "trim_slashes url_path = str path"
      "field \<in> set fs" "get_field payload field = Inr None"
  proof -
    have "dispatch tools (str path) payload = Inl (Error message)"
      using require_falsy [OF that(3,4) missing] by (simp add: dispatch_required [OF that(1)])
    then show ?thesis
      by (simp add: post that(2) api_post_def payload_of_def)
  qed
  have second: "fst (handle_request tools to_key now io_ok ''POST'' url_path b vf) =
      (400, Failure (Error ''Endpoint not found''))"
    if "trim_slashes url_path \<notin> set (map str tool_paths)" "payload_of b \<noteq> None"
    using that by (auto simp: post api_post_def dispatch_unknown)
  show ?thesis
    using first second by blast
qed

theorem missing_field_or_unknown_tool_witness:
  "fst (handle_request echo no_key (str ''2025-01-01T00:00:00.000Z'') True ''POST''
         (str ''/api/base64/encode'') (WellFormed (JObj [])) None) =
     (400, Failure (Error ''Text is required''))
   \<and> fst (handle_request echo no_key (str ''2025-01-01T00:00:00.000Z'') True ''POST''
         (str ''/api/tools/does-not-exist'') (WellFormed (JObj [])) None) =
     (400, Failure (Error ''Endpoint not found''))"
proof -
  have p1: "trim_slashes (str ''/api/base64/encode'') = str ''api/base64/encode''"
    and p2: "trim_slashes (str ''/api/tools/does-not-exist'') = str ''api/tools/does-not-exist''"
    by (simp_all add: trim_slashes_def str_def)
  have a1: "starts_with (trim_slashes (str ''/api/base64/encode'')) (str ''api/'')"
    and a2: "starts_with (trim_slashes (str ''/api/tools/does-not-exist'')) (str ''api/'')"
    unfolding p1 p2 by (simp_all add: starts_with_def str_def)
  have h1: "trim_slashes (str ''/api/base64/encode'') \<noteq> str ''api/health''"
    and h2: "trim_slashes (str ''/api/tools/does-not-exist'') \<noteq> str ''api/health''"
    and v1: "trim_slashes (str ''/api/base64/encode'') \<noteq> str ''api/visitors/track''"
    and v2: "trim_slashes (str ''/api/tools/does-not-exist'') \<noteq> str ''api/visitors/track''"
    by (simp_all add: p1 p2 str_eq_iff)
  have t1: "(''api/base64/encode'', [''text''], ''Text is required'') \<in> set required_fields"
    by (simp add: required_fields_def)
  have m: "''text'' \<in> set [''text'']"
    by simp
  have g: "get_field (JObj []) ''text'' = Inr None"
    by (simp add: get_field_def)
  have u: "trim_slashes (str ''/api/tools/does-not-exist'') \<notin> set (map str tool_paths)"
    by (simp add: p2 tool_paths_def required_fields_def str_eq_iff)
  have w: "payload_of (WellFormed (JObj [])) \<noteq> None"
    by (simp add: payload_of_def)
  show ?thesis
    using missing_field_or_unknown_tool [OF a1 h1 v1, THEN conjunct1, rule_format, OF t1 p1 m g]
      missing_field_or_unknown_tool [OF a2 h2 v2, THEN conjunct2, rule_format, OF u w]
    by (rule conjI)
qed

text \<open>
  C2, as stated, fails at three requests: a \<^verbatim>\<open>POST\<close> to \<^verbatim>\<open>api/visitors/track\<close>, a
  path under \<^verbatim>\<open>api/\<close> that is no tool of the dispatch, is answered with 200; a
  \<^verbatim>\<open>POST\<close> to \<^verbatim>\<open>api/base64/encode\<close> with the well-formed body \<^verbatim>\<open>null\<close> is
  answered with the message of the engine's \<^verbatim>\<open>TypeError\<close>, not "Text is required"; a
  \<^verbatim>\<open>POST\<close> to an unknown tool path with a malformed body is answered with "Invalid
  JSON payload", not "Endpoint not found".
\<close>

theorem post_api_counterexample:
  "fst (fst (handle_request echo no_key (str ''2025-01-01T00:00:00.000Z'') True ''POST''
         (str ''/api/visitors/track'') (WellFormed (JObj [])) None)) = 200
   \<and> str ''api/visitors/track'' \<notin> set (map str tool_paths)
   \<and> fst (handle_request echo no_key (str ''2025-01-01T00:00:00.000Z'') True ''POST''
         (str ''/api/base64/encode'') (WellFormed JNull) None) =
       (400, Failure (TypeError_reading_null ''text''))
   \<and> fst (handle_request echo no_key (str ''2025-01-01T00:00:00.000Z'') True ''POST''
         (str ''/api/tools/does-not-exist'') InvalidJSON None) =
       (400, Failure (Error ''Invalid JSON payload''))"
proof -
  have p0: "trim_slashes (str ''/api/visitors/track'') = str ''api/visitors/track''"
    and p1: "trim_slashes (str ''/api/base64/encode'') = str ''api/base64/encode''"
    and p2: "trim_slashes (str ''/api/tools/does-not-exist'') = str ''api/tools/does-not-exist''"
    by (simp_all add: trim_slashes_def str_def)
  have track: "fst (fst (handle_request echo no_key (str ''2025-01-01T00:00:00.000Z'') True ''POST''
         (str ''/api/visitors/track'') (WellFormed (JObj [])) None)) = 200"
    by (simp add: handle_request_def Let_def p0 str_eq_iff visitors_track_def payload_of_def
        get_field_def truthy_def split_def)
  have no_tool: "str ''api/visitors/track'' \<notin> set (map str tool_paths)"
    by (simp add: tool_paths_def required_fields_def str_eq_iff)
  have s1: "starts_with (str ''api/base64/encode'') (str ''api/'')"
    and s2: "starts_with (str ''api/tools/does-not-exist'') (str ''api/'')"
    by (simp_all add: starts_with_def str_def)
  have null: "fst (handle_request echo no_key (str ''2025-01-01T00:00:00.000Z'') True ''POST''
         (str ''/api/base64/encode'') (WellFormed JNull) None) =
       (400, Failure (TypeError_reading_null ''text''))"
    by (simp add: handle_request_def Let_def p1 s1 str_eq_iff api_post_def payload_of_def
        dispatch_def get_field_def)
  have invalid: "fst (handle_request echo no_key (str ''2025-01-01T00:00:00.000Z'') True ''POST''
         (str ''/api/tools/does-not-exist'') InvalidJSON None) =
       (400, Failure (Error ''Invalid JSON payload''))"
    by (simp add: handle_request_def Let_def p2 s2 str_eq_iff api_post_def payload_of_def)
  show ?thesis
    using track no_tool null invalid by (intro conjI)
qed

section \<open>Base64 and JWT: proofs\<close>

lemma jwtDecode_never_format_error:
  "jwtDecode json_parse token \<noteq> Inl (Error ''Invalid JWT format'')"
  by (simp add: jwtDecode_def split: sum.split)

lemma jwtDecode_segments:
  "length (split 46 token) \<noteq> 3 \<Longrightarrow> jwtDecode json_parse token = Inl (Error ''Invalid JWT token'')"
  by (simp add: jwtDecode_def jwt_try_def)

lemma jwtDecode_not_json:
  "json_parse (utf8_decode (bytes_of_base64 (split 46 token ! 0))) = None \<or>
   json_parse (utf8_decode (bytes_of_base64 (split 46 token ! 1))) = None \<Longrightarrow>
     jwtDecode json_parse token = Inl (Error ''Invalid JWT token'')"
  by (auto simp: jwtDecode_def jwt_try_def Let_def split: option.split)

text \<open>
  C4. The claim: \<^verbatim>\<open>jwtDecode\<close> fails with a format error on a token that does not have
  exactly three segments, and with a distinct invalid-token error on a token whose header
  or payload is not base64-encoded JSON. The second half holds (\<open>jwtDecode_not_json\<close>).
  The format error however is thrown inside the \<^verbatim>\<open>try\<close> and replaced by its \<^verbatim>\<open>catch\<close>:
  the token "a.b" of two segments fails with "Invalid JWT token", and no token at all fails
  with "Invalid JWT format".
\<close>

theorem jwtDecode_two_segments:
  "jwt_try json_parse (str ''a.b'') = Inl (Error ''Invalid JWT format'')
   \<and> jwtDecode json_parse (str ''a.b'') = Inl (Error ''Invalid JWT token'')
   \<and> jwtDecode json_parse token \<noteq> Inl (Error ''Invalid JWT format'')"
proof -
  have parts: "split 46 (str ''a.b'') = [str ''a'', str ''b'']"
    by (simp add: str_def)
  have thrown_first: "jwt_try json_parse (str ''a.b'') = Inl (Error ''Invalid JWT format'')"
    by (simp add: jwt_try_def parts)
  have caught: "jwtDecode json_parse (str ''a.b'') = Inl (Error ''Invalid JWT token'')"
    by (simp add: jwtDecode_def thrown_first)
  show ?thesis
    using thrown_first caught jwtDecode_never_format_error [of json_parse token]
    by (intro conjI)
qed

lemma base64Decode_returns: "\<exists>decoded. base64Decode encoded = Inr decoded"
  by (simp add: base64Decode_def buffer_from_base64_def)

text \<open>
  C5. The claim: \<^verbatim>\<open>base64Decode\<close> fails with a decode error on every string that is not
  well-formed base64. The platform decoder never throws on a string, so the \<^verbatim>\<open>catch\<close>
  of \<^verbatim>\<open>base64Decode\<close> is never entered (\<open>base64Decode_returns\<close>): "!!!!", which has no
  base64 character at all, decodes to the empty string, and "SGVsbG8", which lacks its
  padding, to "Hello".
\<close>

theorem base64Decode_malformed:
  "base64Decode (str ''!!!!'') = Inr (str '''')
   \<and> base64Decode (str ''SGVsbG8'') = Inr (str ''Hello'')"
  by (simp add: base64Decode_def buffer_from_base64_def bytes_of_base64_def str_def
      unbase64_def utf8_decode_def utf16_units_def)

section \<open>Round trips: proofs\<close>

subsection \<open>Base64 on bytes\<close>

lemma byte_parts:
  fixes y :: nat
  assumes "y < 256"
  shows "y div 16 < 16" "y div 64 < 4" "y div 4 < 64"
  using assms by arith+

lemma high_nibble_div: "(y::nat) < 256 \<Longrightarrow> y div 16 div 16 = 0" by (simp add: byte_parts)
lemma high_nibble_mod: "(y::nat) < 256 \<Longrightarrow> y div 16 mod 16 = y div 16" by (simp add: byte_parts)
lemma top_bits_div: "(y::nat) < 256 \<Longrightarrow> y div 64 div 4 = 0" by (simp add: byte_parts)
lemma top_bits_mod: "(y::nat) < 256 \<Longrightarrow> y div 64 mod 4 = y div 64" by (simp add: byte_parts)

lemma sextet2_bound: "y < 256 \<Longrightarrow> x mod 4 * 16 + y div 16 < (64::nat)"
  using byte_parts(1) [of y] mod_less_divisor [of 4 x] by linarith
lemma sextet3_bound: "z < 256 \<Longrightarrow> y mod 16 * 4 + z div 64 < (64::nat)"
  using byte_parts(2) [of z] mod_less_divisor [of 16 y] by linarith
lemma sextet2_pad_bound: "x mod 4 * 16 < (64::nat)"
  using mod_less_divisor [of 4 x] by linarith
lemma sextet3_pad_bound: "y mod 16 * 4 < (64::nat)"
  using mod_less_divisor [of 16 y] by linarith
lemma first_byte_alone: "x div 4 * 4 + (x mod 4 * 16) div 16 = (x::nat)" by simp


lemma base64_char_sextet:
  "v < 64 \<Longrightarrow> base64_char v mod 256 \<noteq> 61 \<and> unbase64 (base64_char v mod 256) = Some v"
  by (auto simp: base64_char_def unbase64_def)

lemma sextets_char: "v < 64 \<Longrightarrow> sextets (base64_char v # cs) = v # sextets cs"
  using base64_char_sextet [of v] by simp

lemma sextets_padding: "sextets (61 # cs) = []"
  by simp

lemma sextets_three_bytes:
  assumes "x < 256" "y < 256" "z < 256"
  shows "sextets (base64_of_bytes (x # y # z # rest)) =
         x div 4 # (x mod 4 * 16 + y div 16) # (y mod 16 * 4 + z div 64) # z mod 64 #
         sextets (base64_of_bytes rest)"
proof -
  have "x div 4 < 64" "x mod 4 * 16 + y div 16 < 64" "y mod 16 * 4 + z div 64 < 64" "z mod 64 < 64"
    using assms by (simp_all add: byte_parts sextet2_bound sextet3_bound)
  then show ?thesis
    by (simp only: base64_of_bytes.simps append.simps sextets_char)
qed

lemma sextets_two_bytes:
  assumes "x < 256" "y < 256"
  shows "sextets (base64_of_bytes [x, y]) = [x div 4, x mod 4 * 16 + y div 16, y mod 16 * 4]"
proof -
  have "x div 4 < 64" "x mod 4 * 16 + y div 16 < 64" "y mod 16 * 4 < 64"
    using assms by (simp_all add: byte_parts sextet2_bound sextet3_pad_bound)
  then show ?thesis
    by (simp only: base64_of_bytes.simps sextets_char sextets_padding)
qed

lemma sextets_one_byte:
  assumes "x < 256"
  shows "sextets (base64_of_bytes [x]) = [x div 4, x mod 4 * 16]"
proof -
  have "x div 4 < 64" "x mod 4 * 16 < 64"
    using assms by (simp_all add: byte_parts sextet2_pad_bound)
  then show ?thesis
    by (simp only: base64_of_bytes.simps sextets_char sextets_padding)
qed

lemma base64_bytes_roundtrip:
  "list_all (\<lambda>b. b < 256) bytes \<Longrightarrow> bytes_of_base64 (base64_of_bytes bytes) = bytes"
proof (induction bytes rule: base64_of_bytes.induct)
  case (1 x y z rest)
  then have b: "x < 256" "y < 256" "z < 256"
    and IH: "bytes_of_sextets (sextets (base64_of_bytes rest)) = rest"
    by (simp_all add: bytes_of_base64_def)
  show ?case
    unfolding bytes_of_base64_def sextets_three_bytes [OF b]
    by (simp add: IH high_nibble_div high_nibble_mod top_bits_div top_bits_mod b)
next
  case (2 x y)
  then have b: "x < 256" "y < 256" by simp_all
  show ?case
    unfolding bytes_of_base64_def sextets_two_bytes [OF b]
    by (simp add: high_nibble_div high_nibble_mod top_bits_div top_bits_mod b)
next
  case (3 x)
  then have b: "x < 256" by simp
  show ?case
    unfolding bytes_of_base64_def sextets_one_byte [OF b]
    by (simp add: first_byte_alone)
next
  case 4
  show ?case by (simp add: bytes_of_base64_def)
qed

subsection \<open>UTF-8\<close>

lemma digits3:
  fixes cp :: nat
  shows "cp = cp div 4096 * 4096 + cp div 64 mod 64 * 64 + cp mod 64"
proof -
  define d where "d = cp div 64"
  have e: "cp div 4096 = d div 64"
    by (simp add: d_def div_mult2_eq [symmetric])
  have "(d div 64 * 64 + d mod 64) * 64 = d div 64 * 4096 + d mod 64 * 64"
    by (simp only: add_mult_distrib mult.assoc)
  then have "d div 64 * 4096 + d mod 64 * 64 = d * 64"
    by simp
  then show ?thesis
    unfolding e by (simp add: d_def)
qed

lemma digits4:
  fixes cp :: nat
  shows "cp = cp div 262144 * 262144 + cp div 4096 mod 64 * 4096 + cp div 64 mod 64 * 64 + cp mod 64"
proof -
  define d where "d = cp div 4096"
  have e: "cp div 262144 = d div 64"
    by (simp add: d_def div_mult2_eq [symmetric])
  have "(d div 64 * 64 + d mod 64) * 4096 = d div 64 * 262144 + d mod 64 * 4096"
    by (simp only: add_mult_distrib mult.assoc)
  then have "d div 64 * 262144 + d mod 64 * 4096 = d * 4096"
    by simp
  then have "cp div 262144 * 262144 + cp div 4096 mod 64 * 4096 = cp div 4096 * 4096"
    unfolding e by (simp add: d_def)
  then show ?thesis
    using digits3 [of cp] by simp
qed

lemma utf8_bytes_two:
  assumes "128 \<le> cp" "cp < 2048"
  obtains hi lo where "utf8_bytes cp = [192 + hi, 128 + lo]" "2 \<le> hi" "hi < 32" "lo < 64"
    "cp = hi * 64 + lo"
proof -
  define hi lo where "hi = cp div 64" and "lo = cp mod 64"
  have cp: "cp = hi * 64 + lo" and lo: "lo < 64"
    by (simp_all add: hi_def lo_def)
  have hi: "2 \<le> hi" "hi < 32"
    using assms cp lo by linarith+
  have bytes: "utf8_bytes cp = [192 + hi, 128 + lo]"
    using assms by (simp add: utf8_bytes_def hi_def lo_def)
  show thesis
    using that [OF bytes hi lo cp] .
qed

lemma utf8_bytes_three:
  assumes "2048 \<le> cp" "cp < 65536" "\<not> is_surrogate cp"
  obtains hi mid lo where "utf8_bytes cp = [224 + hi, 128 + mid, 128 + lo]" "hi < 16" "mid < 64"
    "lo < 64" "second_byte (224 + hi) (128 + mid)" "cp = hi * 4096 + mid * 64 + lo"
proof -
  define hi mid lo where "hi = cp div 4096" and "mid = cp div 64 mod 64" and "lo = cp mod 64"
  have cp: "cp = hi * 4096 + mid * 64 + lo" and mid: "mid < 64" and lo: "lo < 64"
    using digits3 [of cp] by (simp_all add: hi_def mid_def lo_def)
  have hi: "hi < 16"
    using assms(2) cp by linarith
  have first: "hi = 0 \<Longrightarrow> 32 \<le> mid"
    using assms(1) cp lo by linarith
  have sur: "cp < 55296 \<or> 57343 < cp"
    using assms(3) by (auto simp: is_surrogate_def)
  have last: "hi = 13 \<Longrightarrow> mid < 32"
    using sur cp mid lo by linarith
  have second: "second_byte (224 + hi) (128 + mid)"
    using hi mid first last by (auto simp: second_byte_def)
  have bytes: "utf8_bytes cp = [224 + hi, 128 + mid, 128 + lo]"
    using assms by (simp add: utf8_bytes_def hi_def mid_def lo_def)
  show thesis
    using that [OF bytes hi mid lo second cp] .
qed

lemma utf8_bytes_four:
  assumes "65536 \<le> cp" "cp < 1114112"
  obtains top hi mid lo where "utf8_bytes cp = [240 + top, 128 + hi, 128 + mid, 128 + lo]"
    "top \<le> 4" "hi < 64" "mid < 64" "lo < 64" "second_byte (240 + top) (128 + hi)"
    "cp = top * 262144 + hi * 4096 + mid * 64 + lo"
proof -
  define top hi mid lo where "top = cp div 262144" and "hi = cp div 4096 mod 64"
    and "mid = cp div 64 mod 64" and "lo = cp mod 64"
  have cp: "cp = top * 262144 + hi * 4096 + mid * 64 + lo"
    and hi: "hi < 64" and mid: "mid < 64" and lo: "lo < 64"
    using digits4 [of cp] by (simp_all add: top_def hi_def mid_def lo_def)
  have top: "top \<le> 4"
    using assms(2) cp by linarith
  have first: "top = 0 \<Longrightarrow> 16 \<le> hi"
    using assms(1) cp mid lo by linarith
  have last: "top = 4 \<Longrightarrow> hi < 16"
    using assms(2) cp by linarith
  have second: "second_byte (240 + top) (128 + hi)"
    using top hi first last by (auto simp: second_byte_def)
  have bytes: "utf8_bytes cp = [240 + top, 128 + hi, 128 + mid, 128 + lo]"
    using assms by (simp add: utf8_bytes_def top_def hi_def mid_def lo_def)
  show thesis
    using that [OF bytes top hi mid lo second cp] .
qed

lemma utf8_code_point_roundtrip:
  assumes "scalar cp"
  shows "utf8_code_points (utf8_bytes cp @ rest) = cp # utf8_code_points rest"
proof -
  consider (one) "cp < 128" | (two) "128 \<le> cp" "cp < 2048" | (three) "2048 \<le> cp" "cp < 65536"
    | (four) "65536 \<le> cp"
    by linarith
  then show ?thesis
  proof cases
    case one
    then show ?thesis
      by (simp add: utf8_bytes_def)
  next
    case two
    then obtain hi lo where b: "utf8_bytes cp = [192 + hi, 128 + lo]" "2 \<le> hi" "hi < 32" "lo < 64"
      "cp = hi * 64 + lo"
      by (rule utf8_bytes_two)
    show ?thesis
      unfolding b(1) using b(2-4) by (simp add: continuation_def b(5))
  next
    case three
    then have "\<not> is_surrogate cp"
      using assms by (simp add: scalar_def)
    with three obtain hi mid lo where b: "utf8_bytes cp = [224 + hi, 128 + mid, 128 + lo]"
      "hi < 16" "mid < 64" "lo < 64" "second_byte (224 + hi) (128 + mid)"
      "cp = hi * 4096 + mid * 64 + lo"
      by (rule utf8_bytes_three)
    show ?thesis
      unfolding b(1) using b(2-5) by (simp add: continuation_def b(6))
  next
    case four
    then have "cp < 1114112"
      using assms by (simp add: scalar_def)
    with four obtain top hi mid lo where
      b: "utf8_bytes cp = [240 + top, 128 + hi, 128 + mid, 128 + lo]"
      "top \<le> 4" "hi < 64" "mid < 64" "lo < 64" "second_byte (240 + top) (128 + hi)"
      "cp = top * 262144 + hi * 4096 + mid * 64 + lo"
      by (rule utf8_bytes_four)
    show ?thesis
      unfolding b(1) using b(2-6) by (simp add: continuation_def b(7))
  qed
qed

lemma utf8_code_points_roundtrip:
  "list_all scalar cps \<Longrightarrow> utf8_code_points (concat (map utf8_bytes cps)) = cps"
  by (induction cps) (simp_all add: utf8_code_point_roundtrip)

lemma utf8_bytes_are_bytes:
  assumes "cp < 1114112"
  shows "list_all (\<lambda>b. b < 256) (utf8_bytes cp)"
proof -
  have "cp < 2048 \<Longrightarrow> cp div 64 < 32" "cp < 65536 \<Longrightarrow> cp div 4096 < 16"
    "cp < 1114112 \<Longrightarrow> cp div 262144 < 8"
    by (simp_all add: less_mult_imp_div_less)
  moreover have "x mod 64 < 128" for x :: nat
    by (rule order_less_trans [OF mod_less_divisor]) simp_all
  ultimately show ?thesis
    using assms by (auto simp: utf8_bytes_def)
qed

subsection \<open>UTF-16 and the Base64 round trip\<close>

lemma surrogate_pair_units:
  assumes "is_high_surrogate u" "is_low_surrogate v"
  shows "utf16_units (65536 + (u - 55296) * 1024 + (v - 56320)) = [u, v]"
    and "scalar (65536 + (u - 55296) * 1024 + (v - 56320))"
proof -
  define a b where "a = u - 55296" and "b = v - 56320"
  have u: "u = 55296 + a" and v: "v = 56320 + b" and a: "a < 1024" and b: "b < 1024"
    using assms unfolding a_def b_def is_high_surrogate_def is_low_surrogate_def by linarith+
  show "utf16_units (65536 + (u - 55296) * 1024 + (v - 56320)) = [u, v]"
    unfolding a_def [symmetric] b_def [symmetric]
    by (simp add: utf16_units_def u v a b)
  have "a * 1024 + b < 1048576"
    using a b by linarith
  then show "scalar (65536 + (u - 55296) * 1024 + (v - 56320))"
    unfolding a_def [symmetric] b_def [symmetric]
    by (simp add: scalar_def is_surrogate_def)
qed

lemma well_formed_code_points:
  "well_formed s \<Longrightarrow> list_all scalar (code_points s) \<and> concat (map utf16_units (code_points s)) = s"
proof (induction s rule: code_points.induct)
  case 1
  show ?case by simp
next
  case (2 u)
  then show ?case
    by (simp add: well_formed_def scalar_def utf16_units_def)
next
  case (3 u v rest)
  show ?case
  proof (cases "is_high_surrogate u \<and> is_low_surrogate v")
    case True
    then have paired: "code_points (u # v # rest) =
        (65536 + (u - 55296) * 1024 + (v - 56320)) # code_points rest"
      by simp
    have "well_formed rest"
      using "3.prems" unfolding well_formed_def paired by simp
    then show ?thesis
      using "3.IH"(1) [OF True] surrogate_pair_units [of u v] True unfolding paired by simp
  next
    case False
    then have unpaired: "code_points (u # v # rest) = u # code_points (v # rest)"
      by auto
    have "well_formed (v # rest)" and "u < 65536" and "\<not> is_surrogate u"
      using "3.prems" unfolding well_formed_def unpaired by simp_all
    then show ?thesis
      using "3.IH"(2) [OF False] unfolding unpaired by (simp add: scalar_def utf16_units_def)
  qed
qed

lemma utf8_roundtrip:
  assumes "well_formed s"
  shows "utf8_decode (utf8_encode s) = s" and "list_all (\<lambda>b. b < 256) (utf8_encode s)"
proof -
  have cps: "list_all scalar (code_points s)" and units: "concat (map utf16_units (code_points s)) = s"
    using well_formed_code_points [OF assms] by simp_all
  have same: "map (\<lambda>cp. utf8_bytes (if is_surrogate cp then 65533 else cp)) (code_points s) =
      map utf8_bytes (code_points s)"
    using cps by (induction "code_points s") (auto simp: scalar_def list_all_iff)
  show "utf8_decode (utf8_encode s) = s"
    by (simp add: utf8_decode_def utf8_encode_def same utf8_code_points_roundtrip [OF cps] units)
  have "list_all (\<lambda>b. b < 256) (concat (map utf8_bytes cps))" if "list_all scalar cps" for cps
    using that utf8_bytes_are_bytes by (induction cps) (auto simp: scalar_def list_all_iff)
  then show "list_all (\<lambda>b. b < 256) (utf8_encode s)"
    using cps by (simp add: utf8_encode_def same)
qed

lemma base64_roundtrip:
  "well_formed s \<Longrightarrow> base64Decode (base64Encode s) = Inr s"
  by (simp add: base64Decode_def base64Encode_def buffer_from_base64_def
      base64_bytes_roundtrip utf8_roundtrip)

subsection \<open>Percent-encoding\<close>

lemma hex_digit_value: "v < 16 \<Longrightarrow> hex_value (hex_digit v) = Some v"
  by (auto simp: hex_value_def hex_digit_def)

lemma escape_percent:
  assumes "b < 256"
  shows "escape (percent b @ s) = Some (b, s)"
proof -
  have "b div 16 < 16"
    using assms by (simp add: less_mult_imp_div_less)
  then show ?thesis
    by (simp add: percent_def hex_digit_value)
qed

lemma escapes_percent:
  "b1 < 256 \<Longrightarrow> escapes 1 (percent b1 @ s) = Some ([b1], s)"
  "b1 < 256 \<Longrightarrow> b2 < 256 \<Longrightarrow> escapes 2 (percent b1 @ percent b2 @ s) = Some ([b1, b2], s)"
  "b1 < 256 \<Longrightarrow> b2 < 256 \<Longrightarrow> b3 < 256 \<Longrightarrow>
     escapes 3 (percent b1 @ percent b2 @ percent b3 @ s) = Some ([b1, b2, b3], s)"
  by (simp_all add: numeral_2_eq_2 numeral_3_eq_3 escape_percent)

lemma decode_literal:
  "c \<noteq> 37 \<Longrightarrow> decodeURIComponent (c # s) = map_sum id ((#) c) (decodeURIComponent s)"
  by (cases "decodeURIComponent s") (simp_all add: decodeURIComponent.simps)

lemma decode_escaped:
  assumes "escape (percent b @ s) = Some (b, rest)"
  shows "decodeURIComponent (percent b @ s) =
     (if b < 0x80 then map_sum id ((#) b) (decodeURIComponent rest)
      else if b < 0xC0 \<or> 0xF8 \<le> b then Inl URIError
      else
        (case escapes (if b < 0xE0 then 1 else if b < 0xF0 then 2 else 3) rest of
           None \<Rightarrow> Inl URIError
         | Some (following, rest') \<Rightarrow>
             (case utf8_sequence (b # following) of
                None \<Rightarrow> Inl URIError
              | Some cp \<Rightarrow> map_sum id ((@) (utf16_units cp)) (decodeURIComponent rest'))))"
proof -
  have c: "(case r of Inl e \<Rightarrow> Inl e | Inr t \<Rightarrow> Inr (f t)) = map_sum id f r"
    for r :: "thrown + jsstring" and f
    by (cases r) simp_all
  obtain x y where shape: "percent b @ s = 37 # x # y # s"
    by (simp add: percent_def)
  show ?thesis
    using assms unfolding shape
    by (subst decodeURIComponent.simps) (simp add: c split: option.split)
qed

lemma append_single: "(@) [c] = (#) c"
  by (rule ext) simp

lemma unreserved_ascii: "unreserved cp \<Longrightarrow> cp < 128 \<and> cp \<noteq> 37"
  by (auto simp: unreserved_def)

lemma decode_code_point:
  assumes "scalar cp"
  shows "decodeURIComponent (encode_code_point cp @ s) =
         map_sum id ((@) (utf16_units cp)) (decodeURIComponent s)"
proof -
  consider (plain) "unreserved cp" | (one) "\<not> unreserved cp" "cp < 128"
    | (two) "128 \<le> cp" "cp < 2048" | (three) "2048 \<le> cp" "cp < 65536" | (four) "65536 \<le> cp"
    by linarith
  then show ?thesis
  proof cases
    case plain
    then show ?thesis
      using unreserved_ascii [OF plain]
      by (simp add: encode_code_point_def decode_literal utf16_units_def append_single)
  next
    case one
    have "decodeURIComponent (percent cp @ s) = map_sum id ((#) cp) (decodeURIComponent s)"
      using one(2) by (subst decode_escaped [OF escape_percent]) simp_all
    then show ?thesis
      using one by (simp add: encode_code_point_def utf8_bytes_def utf16_units_def append_single)
  next
    case two
    then obtain hi lo where b: "utf8_bytes cp = [192 + hi, 128 + lo]" "2 \<le> hi" "hi < 32" "lo < 64"
      "cp = hi * 64 + lo"
      by (rule utf8_bytes_two)
    have seq: "utf8_sequence [192 + hi, 128 + lo] = Some cp"
      using b(2-5) by (simp add: continuation_def)
    have "decodeURIComponent (percent (192 + hi) @ percent (128 + lo) @ s) =
        map_sum id ((@) (utf16_units cp)) (decodeURIComponent s)"
      using b(2-4) by (subst decode_escaped [OF escape_percent]) (simp_all add: escape_percent escapes_percent seq del: utf8_sequence.simps)
    moreover have "\<not> unreserved cp"
      using two(1) unreserved_ascii [of cp] by auto
    ultimately show ?thesis
      by (simp add: encode_code_point_def b(1))
  next
    case three
    then have "\<not> is_surrogate cp"
      using assms by (simp add: scalar_def)
    with three obtain hi mid lo where b: "utf8_bytes cp = [224 + hi, 128 + mid, 128 + lo]"
      "hi < 16" "mid < 64" "lo < 64" "second_byte (224 + hi) (128 + mid)"
      "cp = hi * 4096 + mid * 64 + lo"
      by (rule utf8_bytes_three)
    have seq: "utf8_sequence [224 + hi, 128 + mid, 128 + lo] = Some cp"
      using b(2-6) by (simp add: continuation_def)
    have "decodeURIComponent (percent (224 + hi) @ percent (128 + mid) @ percent (128 + lo) @ s) =
        map_sum id ((@) (utf16_units cp)) (decodeURIComponent s)"
      using b(2-4) by (subst decode_escaped [OF escape_percent]) (simp_all add: escape_percent escapes_percent seq del: utf8_sequence.simps)
    moreover have "\<not> unreserved cp"
      using three(1) unreserved_ascii [of cp] by auto
    ultimately show ?thesis
      by (simp add: encode_code_point_def b(1))
  next
    case four
    then have "cp < 1114112"
      using assms by (simp add: scalar_def)
    with four obtain top hi mid lo where
      b: "utf8_bytes cp = [240 + top, 128 + hi, 128 + mid, 128 + lo]"
      "top \<le> 4" "hi < 64" "mid < 64" "lo < 64" "second_byte (240 + top) (128 + hi)"
      "cp = top * 262144 + hi * 4096 + mid * 64 + lo"
      by (rule utf8_bytes_four)
    have seq: "utf8_sequence [240 + top, 128 + hi, 128 + mid, 128 + lo] = Some cp"
      using b(2-7) by (simp add: continuation_def)
    have "decodeURIComponent
          (percent (240 + top) @ percent (128 + hi) @ percent (128 + mid) @ percent (128 + lo) @ s) =
        map_sum id ((@) (utf16_units cp)) (decodeURIComponent s)"
      using b(2-5) by (subst decode_escaped [OF escape_percent]) (simp_all add: escape_percent escapes_percent seq del: utf8_sequence.simps)
    moreover have "\<not> unreserved cp"
      using four unreserved_ascii [of cp] by auto
    ultimately show ?thesis
      by (simp add: encode_code_point_def b(1))
  qed
qed

lemma decode_code_points:
  "list_all scalar cps \<Longrightarrow>
     decodeURIComponent (concat (map encode_code_point cps)) = Inr (concat (map utf16_units cps))"
proof (induction cps)
  case Nil
  show ?case by (simp add: decodeURIComponent.simps)
next
  case (Cons cp cps)
  then show ?case
    by (simp add: decode_code_point)
qed

lemma url_roundtrip:
  assumes "well_formed s"
  shows "urlEncode s = Inr (concat (map encode_code_point (code_points s)))"
    and "urlDecode (concat (map encode_code_point (code_points s))) = Inr s"
proof -
  have cps: "list_all scalar (code_points s)" and units: "concat (map utf16_units (code_points s)) = s"
    using well_formed_code_points [OF assms] by simp_all
  have "\<not> list_ex is_surrogate (code_points s)"
    using cps by (auto simp: list_ex_iff list_all_iff scalar_def)
  then show "urlEncode s = Inr (concat (map encode_code_point (code_points s)))"
    by (simp add: urlEncode_def encodeURIComponent_def)
  show "urlDecode (concat (map encode_code_point (code_points s))) = Inr s"
    by (simp add: urlDecode_def decode_code_points [OF cps] units)
qed

lemma printable_ascii_well_formed:
  "list_all (\<lambda>c. 32 \<le> c \<and> c \<le> 126) s \<Longrightarrow> well_formed s"
proof (induction s rule: code_points.induct)
  case 1
  show ?case by (simp add: well_formed_def)
next
  case (2 u)
  then show ?case by (simp add: well_formed_def is_surrogate_def)
next
  case (3 u v rest)
  then have "\<not> is_high_surrogate u" "well_formed (v # rest)"
    by (simp_all add: is_high_surrogate_def)
  then show ?case
    using "3.prems" by (simp add: well_formed_def is_surrogate_def)
qed

text \<open>
  C1. For every string of well-formed text (every code unit a 16-bit number, no unpaired
  surrogate; printable ASCII is such text, \<open>printable_ascii_well_formed\<close>), decoding
  the Base64 encoding gives the string back, and \<^verbatim>\<open>urlEncode\<close> returns an encoding
  that \<^verbatim>\<open>urlDecode\<close> decodes to the string.
\<close>

theorem encode_decode_roundtrip:
  assumes "well_formed s"
  shows "base64Decode (base64Encode s) = Inr s
       \<and> (\<exists>encoded. urlEncode s = Inr encoded \<and> urlDecode encoded = Inr s)"
  using base64_roundtrip [OF assms] url_roundtrip [OF assms] by simp

theorem encode_decode_roundtrip_witness:
  "well_formed [72, 105, 32, 233, 8364, 55357, 56832]
   \<and> base64Decode (base64Encode [72, 105, 32, 233, 8364, 55357, 56832]) =
       Inr [72, 105, 32, 233, 8364, 55357, 56832]
   \<and> (\<exists>encoded. urlEncode [72, 105, 32, 233, 8364, 55357, 56832] = Inr encoded \<and>
         urlDecode encoded = Inr [72, 105, 32, 233, 8364, 55357, 56832])"
proof -
  have w: "well_formed [72, 105, 32, 233, 8364, 55357, 56832]"
    by (simp add: well_formed_def is_surrogate_def is_high_surrogate_def is_low_surrogate_def)
  show ?thesis
    using w encode_decode_roundtrip [OF w] by (rule conjI)
qed

end
